theory Spec2Isabelle
  imports Complex_Main "HOL-Library.Log_Nat" "HOL-Library.Monad_Syntax"
begin

section \<open>Numbers\<close>

text \<open>
  A JavaScript Number is an IEEE 754 binary64 value. The model keeps \<open>NaN\<close> and the finite
  values, each finite value as the rational it denotes. The infinities, the sign of zero and
  the subnormal range are left out: no operation of \<open>04-date-tasks.js\<close> divides by zero,
  overflows, underflows or looks at the sign of a zero.
\<close>

datatype number = NaN | Fin rat

text \<open>Truncation towards zero (\<open>truncate\<close> of ECMAScript).\<close>

definition trunc_rat :: "rat \<Rightarrow> int" where
  "trunc_rat x = (if 0 \<le> x then \<lfloor>x\<rfloor> else \<lceil>x\<rceil>)"

text \<open>
  \<open>Number::remainder\<close>, the operator \<open>%\<close>: the result has the sign of the dividend, and it
  is exact (no rounding takes place).
\<close>

fun Number_remainder :: "number \<Rightarrow> number \<Rightarrow> number" where
  "Number_remainder (Fin n) (Fin d) =
     (if d = 0 then NaN else Fin (n - d * of_int (trunc_rat (n / d))))"
| "Number_remainder _ _ = NaN"

text \<open>\<open>Number::equal\<close>, the operator \<open>===\<close> on two Numbers: \<open>NaN\<close> equals nothing.\<close>

fun Number_equal :: "number \<Rightarrow> number \<Rightarrow> bool" where
  "Number_equal (Fin x) (Fin y) = (x = y)"
| "Number_equal _ _ = False"

subsection \<open>Rounding\<close>

text \<open>
  \<open>ilog2 x\<close> is the binary exponent of a positive \<open>x\<close>: the \<open>e\<close> with
  \<open>2 ^ e \<le> x < 2 ^ (e + 1)\<close>.
\<close>

definition ilog2 :: "rat \<Rightarrow> int" where
  "ilog2 x = (if 1 \<le> x then bitlen \<lfloor>x\<rfloor> - 1 else - bitlen (\<lceil>1 / x\<rceil> - 1))"

text \<open>Rounding to the nearest integer, a tie to the even one.\<close>

definition round_even :: "rat \<Rightarrow> int" where
  "round_even q =
     (let f = \<lfloor>q\<rfloor>; r = q - of_int f
      in if r < 1 / 2 then f
         else if 1 / 2 < r then f + 1
         else if even f then f
         else f + 1)"

text \<open>
  \<open>fl x\<close> is the binary64 value nearest to \<open>x\<close> (53 significant bits, a tie to the even
  significand), with the exponent unbounded.
\<close>

definition fl :: "rat \<Rightarrow> rat" where
  "fl x =
     (if x = 0 then 0
      else let u = 2 powi (ilog2 \<bar>x\<bar> - 52) in of_int (round_even (x / u)) * u)"

subsection \<open>Arithmetic and comparison\<close>

text \<open>
  The operators \<open>+\<close>, \<open>-\<close>, \<open>*\<close> and \<open>/\<close> on two Numbers round the exact result. A
  division by zero gives an infinity or \<open>NaN\<close> in JavaScript; the model says \<open>NaN\<close>, and
  every divisor of the module is a non-zero literal.
\<close>

fun Number_add :: "number \<Rightarrow> number \<Rightarrow> number" where
  "Number_add (Fin x) (Fin y) = Fin (fl (x + y))"
| "Number_add _ _ = NaN"

fun Number_subtract :: "number \<Rightarrow> number \<Rightarrow> number" where
  "Number_subtract (Fin x) (Fin y) = Fin (fl (x - y))"
| "Number_subtract _ _ = NaN"

fun Number_multiply :: "number \<Rightarrow> number \<Rightarrow> number" where
  "Number_multiply (Fin x) (Fin y) = Fin (fl (x * y))"
| "Number_multiply _ _ = NaN"

fun Number_divide :: "number \<Rightarrow> number \<Rightarrow> number" where
  "Number_divide (Fin x) (Fin y) = (if y = 0 then NaN else Fin (fl (x / y)))"
| "Number_divide _ _ = NaN"

text \<open>\<open>Number::lessThan\<close>; the source's \<open>a > b\<close> is \<open>Number_lessThan b a\<close>.\<close>

fun Number_lessThan :: "number \<Rightarrow> number \<Rightarrow> bool" where
  "Number_lessThan (Fin x) (Fin y) = (x < y)"
| "Number_lessThan _ _ = False"

fun Math_abs :: "number \<Rightarrow> number" where
  "Math_abs NaN = NaN"
| "Math_abs (Fin x) = Fin \<bar>x\<bar>"

fun Math_floor :: "number \<Rightarrow> number" where
  "Math_floor NaN = NaN"
| "Math_floor (Fin x) = Fin (of_int \<lfloor>x\<rfloor>)"

text \<open>\<open>Math.PI\<close> is the binary64 value \<open>0x400921FB54442D18\<close>.\<close>

definition Math_PI :: number where
  "Math_PI = Fin (884279719003555 / 281474976710656)"

subsection \<open>Numbers and strings\<close>

definition digit_char :: "nat \<Rightarrow> char" where
  "digit_char d = ''0123456789'' ! d"

fun decimal :: "nat \<Rightarrow> string" where
  "decimal n = (if n < 10 then [digit_char n] else decimal (n div 10) @ [digit_char (n mod 10)])"

declare decimal.simps [simp del]

definition is_digit :: "char \<Rightarrow> bool" where
  "is_digit c = (c \<in> set ''0123456789'')"

definition digit_val :: "char \<Rightarrow> nat" where
  "digit_val c = of_char c - 48"

definition decimal_value :: "string \<Rightarrow> nat" where
  "decimal_value s = foldl (\<lambda>a c. 10 * a + digit_val c) 0 s"

definition is_letter :: "char \<Rightarrow> bool" where
  "is_letter c = (c \<in> set ''ABCDEFGHIJKLMNOPQRSTUVWXYZabcdefghijklmnopqrstuvwxyz'')"

text \<open>
  The conversions between numbers and strings are modelled on the fragment the module
  reaches; what an engine does outside it is a parameter.
\<close>

record conversions =
  NumberToString_rest :: "rat \<Rightarrow> string"
  StringToNumber_rest :: "string \<Rightarrow> number"

text \<open>
  \<open>Number::toString\<close>: \<open>NaN\<close> gives \<open>"NaN"\<close>, an integer below \<open>10 ^ 21\<close> in magnitude
  gives its decimal digits. The digits of every other number (the shortest string that
  reads back as the same binary64 value) are the parameter \<open>NumberToString_rest\<close>.
\<close>

fun Number_toString :: "conversions \<Rightarrow> number \<Rightarrow> string" where
  "Number_toString E NaN = ''NaN''"
| "Number_toString E (Fin x) =
     (if of_int \<lfloor>x\<rfloor> = x \<and> \<bar>x\<bar> < 10 ^ 21
      then (if x < 0 then CHR ''-'' # decimal (nat (- \<lfloor>x\<rfloor>)) else decimal (nat \<lfloor>x\<rfloor>))
      else NumberToString_rest E x)"

text \<open>
  \<open>StringToNumber\<close>, the conversion the operator \<open>*\<close> applies to a string operand: a
  non-empty string of decimal digits is the number it writes, rounded; a string that starts
  with a letter other than \<open>I\<close> is no numeric literal (only \<open>Infinity\<close> starts with a
  letter) and gives \<open>NaN\<close>. Every other string (white space, signs, fractions, exponents,
  other radixes) is the parameter \<open>StringToNumber_rest\<close>.
\<close>

definition StringToNumber :: "conversions \<Rightarrow> string \<Rightarrow> number" where
  "StringToNumber E s =
     (case s of
        [] \<Rightarrow> StringToNumber_rest E s
      | c # _ \<Rightarrow>
          if list_all is_digit s then Fin (fl (of_nat (decimal_value s)))
          else if is_letter c \<and> c \<noteq> CHR ''I'' then NaN
          else StringToNumber_rest E s)"

section \<open>Date objects\<close>

text \<open>
  A Date object holds a time value: \<open>NaN\<close> (the invalid date) or an integral number of
  milliseconds since the epoch, at most 8.64e15 in magnitude.
\<close>

datatype date = InvalidDate | Instant int

definition maxTime :: int where
  "maxTime = 8640000000000000"

fun TimeClip :: "number \<Rightarrow> date" where
  "TimeClip NaN = InvalidDate"
| "TimeClip (Fin x) = (if rat_of_int maxTime < \<bar>x\<bar> then InvalidDate else Instant (trunc_rat x))"

fun thisTimeValue :: "date \<Rightarrow> number" where
  "thisTimeValue InvalidDate = NaN"
| "thisTimeValue (Instant t) = Fin (of_int t)"

text \<open>
  What the engine decides and the module only calls: the date formats \<open>Date.parse\<close> reads
  beyond those of the standard, and \<open>LocalTZA t isUTC\<close>, the offset of local time from UTC
  in milliseconds, at the UTC time \<open>t\<close> when \<open>isUTC\<close> is true and at the local time \<open>t\<close>
  when it is false.
\<close>

record engine =
  Date_parse_rest :: "string \<Rightarrow> number"
  LocalTZA :: "int \<Rightarrow> bool \<Rightarrow> int"

subsection \<open>Calendar fields\<close>

definition msPerDay :: int where "msPerDay = 86400000"
definition msPerHour :: int where "msPerHour = 3600000"
definition msPerMinute :: int where "msPerMinute = 60000"

definition Day :: "int \<Rightarrow> int" where
  "Day t = t div msPerDay"

definition DayFromYear :: "int \<Rightarrow> int" where
  "DayFromYear y =
     365 * (y - 1970) + (y - 1969) div 4 - (y - 1901) div 100 + (y - 1601) div 400"

definition TimeFromYear :: "int \<Rightarrow> int" where
  "TimeFromYear y = msPerDay * DayFromYear y"

text \<open>
  \<open>YearFromTime t\<close> is the largest \<open>y\<close> with \<open>TimeFromYear y \<le> t\<close>. It is computed from
  the mean length of a Gregorian year (146097 days in 400 years), which is off by one year
  at most, and corrected.
\<close>

definition YearFromTime :: "int \<Rightarrow> int" where
  "YearFromTime t =
     (let d = Day t; y = 1970 + (400 * d) div 146097
      in if d < DayFromYear y then y - 1
         else if DayFromYear (y + 1) \<le> d then y + 1
         else y)"

definition HourFromTime :: "int \<Rightarrow> int" where
  "HourFromTime t = (t div msPerHour) mod 24"

definition MinFromTime :: "int \<Rightarrow> int" where
  "MinFromTime t = (t div msPerMinute) mod 60"

definition LocalTime :: "engine \<Rightarrow> int \<Rightarrow> int" where
  "LocalTime E t = t + LocalTZA E t True"

text \<open>\<open>UTC\<close> of the standard: the UTC time of a local time.\<close>

definition UTC_time :: "engine \<Rightarrow> int \<Rightarrow> int" where
  "UTC_time E t = t - LocalTZA E t False"

fun getFullYear :: "engine \<Rightarrow> date \<Rightarrow> number" where
  "getFullYear E InvalidDate = NaN"
| "getFullYear E (Instant t) = Fin (of_int (YearFromTime (LocalTime E t)))"

fun getUTCHours :: "date \<Rightarrow> number" where
  "getUTCHours InvalidDate = NaN"
| "getUTCHours (Instant t) = Fin (of_int (HourFromTime t))"

fun getUTCMinutes :: "date \<Rightarrow> number" where
  "getUTCMinutes InvalidDate = NaN"
| "getUTCMinutes (Instant t) = Fin (of_int (MinFromTime t))"

subsection \<open>Date.parse\<close>

text \<open>
  The time value of a calendar date and a time of day (\<open>MakeDay\<close>, \<open>MakeTime\<close>,
  \<open>MakeDate\<close> of the standard, \<open>MakeDay\<close> for a month index from 0 to 11, which is all
  the readers below pass).
\<close>

definition DaysInYear :: "int \<Rightarrow> int" where
  "DaysInYear y =
     (if y mod 4 \<noteq> 0 then 365
      else if y mod 100 \<noteq> 0 then 366
      else if y mod 400 \<noteq> 0 then 365
      else 366)"

definition month_lengths :: "int \<Rightarrow> int list" where
  "month_lengths y =
     [31, if DaysInYear y = 366 then 29 else 28, 31, 30, 31, 30, 31, 31, 30, 31, 30, 31]"

definition MakeDay :: "int \<Rightarrow> nat \<Rightarrow> int \<Rightarrow> int" where
  "MakeDay y m dt = DayFromYear y + sum_list (take m (month_lengths y)) + dt - 1"

definition MakeTime :: "int \<Rightarrow> int \<Rightarrow> int \<Rightarrow> int \<Rightarrow> int" where
  "MakeTime h mi sec ms = h * msPerHour + mi * msPerMinute + sec * 1000 + ms"

definition MakeDate :: "int \<Rightarrow> int \<Rightarrow> int" where
  "MakeDate day time = day * msPerDay + time"

definition WeekDay :: "int \<Rightarrow> int" where
  "WeekDay t = (Day t + 4) mod 7"

text \<open>A time value as a Number: \<open>NaN\<close> outside the range of time values.\<close>

definition time_value :: "int \<Rightarrow> number" where
  "time_value t = (if \<bar>t\<bar> \<le> maxTime then Fin (of_int t) else NaN)"

text \<open>
  Readers: each takes what it reads from the front of the string and returns the rest.
  \<open>take_digits n\<close> reads exactly \<open>n\<close> decimal digits, \<open>expect p\<close> the text \<open>p\<close>, \<open>one_of\<close>
  the first of a list of names.
\<close>

definition take_digits :: "nat \<Rightarrow> string \<Rightarrow> (int \<times> string) option" where
  "take_digits n s =
     (if n \<le> length s \<and> list_all is_digit (take n s)
      then Some (int (decimal_value (take n s)), drop n s)
      else None)"

definition expect :: "string \<Rightarrow> string \<Rightarrow> string option" where
  "expect p s = (if take (length p) s = p then Some (drop (length p) s) else None)"

definition one_of :: "string list \<Rightarrow> string \<Rightarrow> (nat \<times> string) option" where
  "one_of names s =
     (case filter (\<lambda>i. take (length (names ! i)) s = names ! i) [0..<length names] of
        [] \<Rightarrow> None
      | i # _ \<Rightarrow> Some (i, drop (length (names ! i)) s))"

text \<open>
  The Date Time String Format of the standard: \<open>YYYY\<close>, \<open>YYYY-MM\<close> or \<open>YYYY-MM-DD\<close> (the
  year of four digits, or of six with a sign, \<open>-000000\<close> excepted), alone (a date in UTC) or
  followed by \<open>T\<close>, a time \<open>HH:mm\<close>, \<open>HH:mm:ss\<close> or \<open>HH:mm:ss.sss\<close> (\<open>24:00:00\<close> is
  the end of the day) and then an offset \<open>Z\<close>, \<open>+HH:mm\<close> or \<open>-HH:mm\<close>, or no offset (a
  local time). \<open>parse_iso\<close> gives the time read and whether it is a local time. A day
  the month does not have is read differently by different engines: \<open>parse_iso\<close> leaves
  such a string, like every string that is not of the format, to the engine.
\<close>

definition parse_year :: "string \<Rightarrow> (int \<times> string) option" where
  "parse_year s =
     (case s of
        [] \<Rightarrow> None
      | c # r \<Rightarrow>
          if c = CHR ''+'' then take_digits 6 r
          else if c = CHR ''-'' then
            (case take_digits 6 r of
               None \<Rightarrow> None
             | Some (y, r') \<Rightarrow> if y = 0 then None else Some (- y, r'))
          else take_digits 4 s)"

definition parse_date :: "string \<Rightarrow> (int \<times> int \<times> int \<times> string) option" where
  "parse_date s = do {
     (y, r) \<leftarrow> parse_year s;
     (case expect ''-'' r of
        None \<Rightarrow> Some (y, 1, 1, r)
      | Some r1 \<Rightarrow> do {
          (m, r2) \<leftarrow> take_digits 2 r1;
          (case expect ''-'' r2 of
             None \<Rightarrow> Some (y, m, 1, r2)
           | Some r3 \<Rightarrow> do {
               (d, r4) \<leftarrow> take_digits 2 r3;
               Some (y, m, d, r4)
             })
        })
   }"

definition parse_time :: "string \<Rightarrow> (int \<times> string) option" where
  "parse_time s = do {
     (h, r1) \<leftarrow> take_digits 2 s;
     r2 \<leftarrow> expect '':'' r1;
     (mi, r3) \<leftarrow> take_digits 2 r2;
     (sec, ms, r) \<leftarrow>
       (case expect '':'' r3 of
          None \<Rightarrow> Some (0, 0, r3)
        | Some r4 \<Rightarrow> do {
            (sec, r5) \<leftarrow> take_digits 2 r4;
            (case expect ''.'' r5 of
               None \<Rightarrow> Some (sec, 0, r5)
             | Some r6 \<Rightarrow> do { (ms, r7) \<leftarrow> take_digits 3 r6; Some (sec, ms, r7) })
          });
     if h \<le> 23 \<and> mi \<le> 59 \<and> sec \<le> 59 \<or> h = 24 \<and> mi = 0 \<and> sec = 0 \<and> ms = 0
     then Some (MakeTime h mi sec ms, r)
     else None
   }"

definition parse_zone :: "string \<Rightarrow> (int \<times> string) option" where
  "parse_zone s =
     (case s of
        [] \<Rightarrow> None
      | c # r \<Rightarrow>
          if c = CHR ''Z'' then Some (0, r)
          else if c = CHR ''+'' \<or> c = CHR ''-'' then do {
            (h, r1) \<leftarrow> take_digits 2 r;
            r2 \<leftarrow> expect '':'' r1;
            (mi, r3) \<leftarrow> take_digits 2 r2;
            if h \<le> 23 \<and> mi \<le> 59
            then Some ((if c = CHR ''+'' then 1 else - 1) * MakeTime h mi 0 0, r3)
            else None
          }
          else None)"

definition parse_iso :: "string \<Rightarrow> (int \<times> bool) option" where
  "parse_iso s = do {
     (y, m, d, r) \<leftarrow> parse_date s;
     if 1 \<le> m \<and> m \<le> 12 \<and> 1 \<le> d \<and> d \<le> month_lengths y ! nat (m - 1) then
       if r = [] then Some (MakeDate (MakeDay y (nat (m - 1)) d) 0, False)
       else do {
         r1 \<leftarrow> expect ''T'' r;
         (tm, r2) \<leftarrow> parse_time r1;
         if r2 = [] then Some (MakeDate (MakeDay y (nat (m - 1)) d) tm, True)
         else do {
           (off, r3) \<leftarrow> parse_zone r2;
           if r3 = [] then Some (MakeDate (MakeDay y (nat (m - 1)) d) tm - off, False)
           else None
         }
       }
     else None
   }"

text \<open>
  The format of \<open>toUTCString\<close>, which the standard has \<open>Date.parse\<close> read back:
  \<open>Tue, 26 Jan 2016 13:48:02 GMT\<close>, with the day of the week that the date falls on.
\<close>

definition day_names :: "string list" where
  "day_names = [''Sun'', ''Mon'', ''Tue'', ''Wed'', ''Thu'', ''Fri'', ''Sat'']"

definition month_names :: "string list" where
  "month_names =
     [''Jan'', ''Feb'', ''Mar'', ''Apr'', ''May'', ''Jun'',
      ''Jul'', ''Aug'', ''Sep'', ''Oct'', ''Nov'', ''Dec'']"

definition parse_clock :: "string \<Rightarrow> (int \<times> string) option" where
  "parse_clock s = do {
     (h, r1) \<leftarrow> take_digits 2 s;
     r2 \<leftarrow> expect '':'' r1;
     (mi, r3) \<leftarrow> take_digits 2 r2;
     r4 \<leftarrow> expect '':'' r3;
     (sec, r5) \<leftarrow> take_digits 2 r4;
     if h \<le> 23 \<and> mi \<le> 59 \<and> sec \<le> 59 then Some (MakeTime h mi sec 0, r5) else None
   }"

definition parse_day_month_year :: "string \<Rightarrow> (int \<times> nat \<times> string) option" where
  "parse_day_month_year s = do {
     (wd, r1) \<leftarrow> one_of day_names s;
     r2 \<leftarrow> expect '', '' r1;
     (d, r3) \<leftarrow> take_digits 2 r2;
     r4 \<leftarrow> expect '' '' r3;
     (m, r5) \<leftarrow> one_of month_names r4;
     r6 \<leftarrow> expect '' '' r5;
     (y, r7) \<leftarrow> take_digits 4 r6;
     r8 \<leftarrow> expect '' '' r7;
     (tm, r9) \<leftarrow> parse_clock r8;
     r10 \<leftarrow> expect '' GMT'' r9;
     if 1 \<le> d \<and> d \<le> month_lengths y ! m
     then Some (MakeDate (MakeDay y m d) tm, wd, r10)
     else None
   }"

definition parse_utc_string :: "string \<Rightarrow> int option" where
  "parse_utc_string s = do {
     (t, wd, r) \<leftarrow> parse_day_month_year s;
     if r = [] \<and> WeekDay t = int wd then Some t else None
   }"

text \<open>
  \<open>Date.parse\<close>: the two formats of the standard, and then the engine. A string is
  unparseable when the result is \<open>NaN\<close>.
\<close>

definition Date_parse :: "engine \<Rightarrow> string \<Rightarrow> number" where
  "Date_parse E s =
     (case parse_iso s of
        Some (t, local) \<Rightarrow> time_value (if local then UTC_time E t else t)
      | None \<Rightarrow>
          (case parse_utc_string s of
             Some t \<Rightarrow> time_value t
           | None \<Rightarrow> Date_parse_rest E s))"

subsection \<open>The constructor\<close>

text \<open>
  \<open>new Date(value)\<close> completes normally with a Date object or abruptly with an exception.
  A value is a primitive, a Date object, or another object, which is modelled by the
  completion of its conversion to a primitive (its \<open>valueOf\<close> or \<open>toString\<close> may throw,
  and a conversion that finds no primitive is a \<open>TypeError\<close>).
\<close>

datatype error = TypeError | UserException

datatype 'a completion = Normal 'a | Throw error

datatype primitive =
  JUndefined | JNull | JBoolean bool | JNumber number | JString string | JSymbol | JBigInt int

datatype jsvalue = Primitive primitive | DateObject date | Object "primitive completion"

text \<open>
  On a string, a Date object and a number the constructor has no abrupt completion:
  \<open>new Date(string)\<close> parses, \<open>new Date(date)\<close> copies the time value, \<open>new
  Date(number)\<close> clips.
\<close>

definition new_Date_string :: "engine \<Rightarrow> string \<Rightarrow> date" where
  "new_Date_string E v = TimeClip (Date_parse E v)"

definition new_Date_date :: "date \<Rightarrow> date" where
  "new_Date_date v = TimeClip (thisTimeValue v)"

definition new_Date_number :: "number \<Rightarrow> date" where
  "new_Date_number v = TimeClip v"

text \<open>
  The constructor on any value: a string is parsed, every other primitive is converted by
  \<open>ToNumber\<close>, which throws a \<open>TypeError\<close> on a Symbol and on a BigInt.
\<close>

fun new_Date_primitive :: "engine \<Rightarrow> primitive \<Rightarrow> date completion" where
  "new_Date_primitive E (JString s) = Normal (new_Date_string E s)"
| "new_Date_primitive E (JNumber n) = Normal (new_Date_number n)"
| "new_Date_primitive E JUndefined = Normal (new_Date_number NaN)"
| "new_Date_primitive E JNull = Normal (new_Date_number (Fin 0))"
| "new_Date_primitive E (JBoolean b) = Normal (new_Date_number (Fin (if b then 1 else 0)))"
| "new_Date_primitive E JSymbol = Throw TypeError"
| "new_Date_primitive E (JBigInt i) = Throw TypeError"

fun new_Date :: "engine \<Rightarrow> jsvalue \<Rightarrow> date completion" where
  "new_Date E (Primitive p) = new_Date_primitive E p"
| "new_Date E (DateObject d) = Normal (new_Date_date d)"
| "new_Date E (Object (Normal p)) = new_Date_primitive E p"
| "new_Date E (Object (Throw e)) = Throw e"

section \<open>The module\<close>

definition parseDataFromRfc2822 :: "engine \<Rightarrow> jsvalue \<Rightarrow> date completion" where
  "parseDataFromRfc2822 E v = new_Date E v"

definition parseDataFromIso8601 :: "engine \<Rightarrow> jsvalue \<Rightarrow> date completion" where
  "parseDataFromIso8601 E v = new_Date E v"

definition isLeapYear :: "engine \<Rightarrow> date \<Rightarrow> bool" where
  "isLeapYear E d =
     (if Number_equal (Number_remainder (getFullYear E (new_Date_date d)) (Fin 100)) (Fin 0) then
        (if Number_equal (Number_remainder (getFullYear E (new_Date_date d)) (Fin 400)) (Fin 0)
         then True
         else False)
      else Number_equal (Number_remainder (getFullYear E (new_Date_date d)) (Fin 4)) (Fin 0))"

text \<open>
  \<open>endDate - startDate\<close> and \<open>Math.abs\<close> of a Date convert the Date to its time value;
  \<open>hours * 3600000\<close> converts the string \<open>hours\<close> to a Number. The source assigns
  \<open>hours\<close>, \<open>minutes\<close>, \<open>secs\<close> and \<open>mlsecs\<close> twice (thrice); the first values carry a
  \<open>0\<close> here.
\<close>

definition timeSpanToString :: "conversions \<Rightarrow> date \<Rightarrow> date \<Rightarrow> string" where
  "timeSpanToString E startDate endDate =
     (let dif = Math_abs (thisTimeValue (new_Date_number
                  (Number_subtract (thisTimeValue endDate) (thisTimeValue startDate))));
          hours0 = Number_toString E (Math_floor (Number_divide dif (Fin 3600000)));
          hours = (if length hours0 < 2 then ''0'' @ hours0 else hours0);
          minutes0 = Number_toString E (Math_abs (Math_floor (Number_divide
                       (Number_subtract dif
                          (Number_multiply (StringToNumber E hours) (Fin 3600000)))
                       (Fin 60000))));
          minutes = (if length minutes0 < 2 then ''0'' @ minutes0 else minutes0);
          secs0 = Number_toString E (Math_abs (Math_floor (Number_divide
                    (Number_subtract
                       (Number_subtract dif
                          (Number_multiply (StringToNumber E hours) (Fin 3600000)))
                       (Number_multiply (StringToNumber E minutes) (Fin 60000)))
                    (Fin 1000))));
          secs = (if length secs0 < 2 then ''0'' @ secs0 else secs0);
          mlsecs0 = Number_toString E (Math_abs (Math_floor
                      (Number_subtract
                         (Number_subtract
                            (Number_subtract dif
                               (Number_multiply (StringToNumber E hours) (Fin 3600000)))
                            (Number_multiply (StringToNumber E minutes) (Fin 60000)))
                         (Number_multiply (StringToNumber E secs) (Fin 1000)))));
          mlsecs1 = (if length mlsecs0 < 2 then ''00'' @ mlsecs0 else mlsecs0);
          mlsecs = (if length mlsecs1 < 3 then ''0'' @ mlsecs1 else mlsecs1)
      in hours @ '':'' @ minutes @ '':'' @ secs @ ''.'' @ mlsecs)"

text \<open>
  \<open>angleBetweenClockHands\<close> in two parts: \<open>clockHandsDegrees\<close> is the value of the
  variable \<open>result\<close> when the first \<open>if\<close> statement is done, the angle in degrees before it
  is normalised.
\<close>

definition clockHandsDegrees :: "date \<Rightarrow> number" where
  "clockHandsDegrees d =
     (let newdate = new_Date_date d;
          hours = (if Number_lessThan (Fin 12) (getUTCHours newdate)
                   then Number_subtract (getUTCHours newdate) (Fin 12)
                   else getUTCHours newdate);
          minutes = getUTCMinutes newdate;
          shiftH = Number_divide minutes (Fin 2);
          shiftM = Number_multiply minutes (Fin 6);
          hzH = Number_multiply hours (Fin 30)
      in if Number_lessThan hzH shiftM
         then Number_subtract (Number_subtract shiftM hzH) shiftH
         else Number_add (Number_subtract hzH shiftM) shiftH)"

definition angleBetweenClockHands :: "date \<Rightarrow> number" where
  "angleBetweenClockHands d =
     (let result = clockHandsDegrees d
      in if Number_lessThan (Fin 180) result
         then Number_multiply (Number_subtract (Fin 360) result) (Number_divide Math_PI (Fin 180))
         else if Number_equal result (Fin 180) then Math_PI
         else Number_divide (Number_multiply result Math_PI) (Fin 180))"

text \<open>A well-formed Date object: the invalid date, or an instant within the range of time values.\<close>

fun wf_date :: "date \<Rightarrow> bool" where
  "wf_date InvalidDate = True"
| "wf_date (Instant t) = (\<bar>t\<bar> \<le> maxTime)"

text \<open>
  The Gregorian rule in the words of the specification: divisible by 4 and (not divisible by
  100, or divisible by 400).
\<close>

definition gregorian_leap :: "int \<Rightarrow> bool" where
  "gregorian_leap y = (4 dvd y \<and> (\<not> 100 dvd y \<or> 400 dvd y))"

text \<open>
  The rendering of a number of milliseconds in the words of the specification:
  \<open>HH:mm:ss.sss\<close>, hours, minutes and seconds padded with zeros to 2 digits (the hours are
  not bounded, and take more digits from 100 hours on), milliseconds padded to 3 digits.
\<close>

definition zero_pad :: "nat \<Rightarrow> string \<Rightarrow> string" where
  "zero_pad w s = replicate (w - length s) CHR ''0'' @ s"

definition render_span :: "nat \<Rightarrow> string" where
  "render_span ms =
     zero_pad 2 (decimal (ms div 3600000)) @ '':'' @
     zero_pad 2 (decimal (ms div 60000 mod 60)) @ '':'' @
     zero_pad 2 (decimal (ms div 1000 mod 60)) @ ''.'' @
     zero_pad 3 (decimal (ms mod 1000))"

text \<open>
  An engine for concrete runs. Its local time is at a fixed offset from UTC all year.
  Beyond the formats of the standard it reads the two other formats of the examples of the
  source, \<open>December 17, 1995 03:24:00\<close> (a local time) and
  \<open>Sun, 17 May 1998 03:00:00 GMT+01\<close> (the day of the week is not checked), and nothing
  else.
\<close>

definition full_month_names :: "string list" where
  "full_month_names =
     [''January'', ''February'', ''March'', ''April'', ''May'', ''June'',
      ''July'', ''August'', ''September'', ''October'', ''November'', ''December'']"

definition parse_long_date :: "string \<Rightarrow> int option" where
  "parse_long_date s = do {
     (m, r1) \<leftarrow> one_of full_month_names s;
     r2 \<leftarrow> expect '' '' r1;
     (d, r3) \<leftarrow> (case take_digits 2 r2 of Some x \<Rightarrow> Some x | None \<Rightarrow> take_digits 1 r2);
     r4 \<leftarrow> expect '', '' r3;
     (y, r5) \<leftarrow> take_digits 4 r4;
     r6 \<leftarrow> expect '' '' r5;
     (tm, r7) \<leftarrow> parse_clock r6;
     if r7 = [] \<and> 1 \<le> d \<and> d \<le> month_lengths y ! m
     then Some (MakeDate (MakeDay y m d) tm)
     else None
   }"

definition parse_gmt_offset :: "string \<Rightarrow> int option" where
  "parse_gmt_offset s = do {
     (t, wd, r) \<leftarrow> parse_day_month_year s;
     (case r of
        [] \<Rightarrow> None
      | c # r1 \<Rightarrow>
          if c = CHR ''+'' \<or> c = CHR ''-'' then do {
            (h, r2) \<leftarrow> take_digits 2 r1;
            if r2 = [] \<and> h \<le> 23
            then Some (t - (if c = CHR ''+'' then 1 else - 1) * MakeTime h 0 0 0)
            else None
          }
          else None)
   }"

definition legacy_parse :: "int \<Rightarrow> string \<Rightarrow> number" where
  "legacy_parse off s =
     (case parse_long_date s of
        Some t \<Rightarrow> time_value (t - off)
      | None \<Rightarrow>
          (case parse_gmt_offset s of
             Some t \<Rightarrow> time_value t
           | None \<Rightarrow> NaN))"

definition reference_engine :: "int \<Rightarrow> engine" where
  "reference_engine off =
     \<lparr>Date_parse_rest = legacy_parse off, LocalTZA = (\<lambda>t isUTC. off)\<rparr>"

section \<open>The calendar year\<close>

lemma div4_step: "(a::int) div 4 \<le> (a + 1) div 4" by (rule zdiv_mono1) simp_all
lemma div400_step: "(a::int) div 400 \<le> (a + 1) div 400" by (rule zdiv_mono1) simp_all
lemma div100_step: "((a::int) + 1) div 100 \<le> a div 100 + 1" by linarith

lemma DayFromYear_step: "DayFromYear y < DayFromYear (y + 1)"
  using div4_step [of "y - 1969"] div400_step [of "y - 1601"] div100_step [of "y - 1901"]
  unfolding DayFromYear_def by (simp add: algebra_simps)

lemma DayFromYear_mono: "y \<le> z \<Longrightarrow> DayFromYear y \<le> DayFromYear z"
proof (induction z rule: int_ge_induct)
  case base
  show ?case by simp
next
  case (step i)
  then show ?case using DayFromYear_step [of i] by simp
qed

lemma DayFromYear_le_iff: "DayFromYear y \<le> DayFromYear z \<longleftrightarrow> y \<le> z"
proof
  assume le: "DayFromYear y \<le> DayFromYear z"
  show "y \<le> z"
  proof (rule ccontr)
    assume "\<not> y \<le> z"
    then have "z + 1 \<le> y" by simp
    then have "DayFromYear (z + 1) \<le> DayFromYear y" by (rule DayFromYear_mono)
    with DayFromYear_step [of z] le show False by simp
  qed
qed (rule DayFromYear_mono)

lemma div_bounds:
  fixes a b :: int
  assumes "0 < b"
  shows "b * (a div b) \<le> a" and "a < b * (a div b) + b"
proof -
  have "a = b * (a div b) + a mod b" by simp
  moreover have "0 \<le> a mod b" "a mod b < b" using assms by simp_all
  ultimately show "b * (a div b) \<le> a" and "a < b * (a div b) + b" by linarith+
qed

lemma DayFromYear_bounds_aux:
  fixes n a b c :: int
  assumes "4 * a \<le> n + 1" "n + 1 < 4 * a + 4"
    and "100 * b \<le> n + 69" "n + 69 < 100 * b + 100"
    and "400 * c \<le> n + 369" "n + 369 < 400 * c + 400"
  shows "146097 * n - 506 \<le> 400 * (365 * n + a - b + c)"
    and "400 * (365 * n + a - b + c) \<le> 146097 * n + 589"
  using assms by (simp_all add: algebra_simps)

lemma DayFromYear_bounds:
  "146097 * (y - 1970) - 506 \<le> 400 * DayFromYear y"
  "400 * DayFromYear y \<le> 146097 * (y - 1970) + 589"
proof -
  define n where "n = y - 1970"
  have y: "y - 1969 = n + 1" "y - 1901 = n + 69" "y - 1601 = n + 369"
    by (simp_all add: n_def)
  have D: "DayFromYear y = 365 * n + (n + 1) div 4 - (n + 69) div 100 + (n + 369) div 400"
    by (simp add: DayFromYear_def y) (simp add: n_def)
  show "146097 * (y - 1970) - 506 \<le> 400 * DayFromYear y"
    unfolding D n_def [symmetric]
    by (rule DayFromYear_bounds_aux(1)) (simp_all add: div_bounds)
  show "400 * DayFromYear y \<le> 146097 * (y - 1970) + 589"
    unfolding D n_def [symmetric]
    by (rule DayFromYear_bounds_aux(2)) (simp_all add: div_bounds)
qed

lemma YearFromTime_Day:
  "DayFromYear (YearFromTime t) \<le> Day t \<and> Day t < DayFromYear (YearFromTime t + 1)"
proof -
  define d where "d = Day t"
  define y where "y = 1970 + (400 * d) div 146097"
  have q: "146097 * (y - 1970) \<le> 400 * d" "400 * d < 146097 * (y - 1970) + 146097"
    using div_bounds [of 146097 "400 * d"] by (simp_all add: y_def)
  have lo: "DayFromYear (y - 1) \<le> d"
    using DayFromYear_bounds(2) [of "y - 1"] q(1) by (simp add: algebra_simps)
  have hi: "d < DayFromYear (y + 2)"
    using DayFromYear_bounds(1) [of "y + 2"] q(2) by (simp add: algebra_simps)
  have Y: "YearFromTime t =
      (if d < DayFromYear y then y - 1 else if DayFromYear (y + 1) \<le> d then y + 1 else y)"
    by (simp add: YearFromTime_def Let_def d_def y_def)
  have y2: "y + 1 + 1 = y + 2" "y - 1 + 1 = y" by simp_all
  show ?thesis
  proof (cases "d < DayFromYear y")
    case True
    with lo show ?thesis unfolding Y d_def [symmetric] by (simp add: y2)
  next
    case False
    note ge = this
    show ?thesis
    proof (cases "DayFromYear (y + 1) \<le> d")
      case True
      with ge hi show ?thesis unfolding Y d_def [symmetric] by (simp add: y2)
    next
      case False
      with ge show ?thesis unfolding Y d_def [symmetric] by simp
    qed
  qed
qed

lemma TimeFromYear_le_iff: "TimeFromYear y \<le> t \<longleftrightarrow> DayFromYear y \<le> Day t"
proof -
  have "86400000 * (t div 86400000) \<le> t" "t < 86400000 * (t div 86400000) + 86400000"
    by (simp_all add: div_bounds)
  then show ?thesis
    unfolding TimeFromYear_def Day_def msPerDay_def by linarith
qed

lemma YearFromTime_largest: "TimeFromYear y \<le> t \<longleftrightarrow> y \<le> YearFromTime t"
proof -
  have "DayFromYear y \<le> Day t \<longleftrightarrow> y \<le> YearFromTime t"
  proof
    assume "DayFromYear y \<le> Day t"
    with YearFromTime_Day [of t] have "DayFromYear y < DayFromYear (YearFromTime t + 1)" by simp
    then have "\<not> DayFromYear (YearFromTime t + 1) \<le> DayFromYear y" by simp
    then have "\<not> YearFromTime t + 1 \<le> y" by (simp add: DayFromYear_le_iff)
    then show "y \<le> YearFromTime t" by simp
  next
    assume "y \<le> YearFromTime t"
    then have "DayFromYear y \<le> DayFromYear (YearFromTime t)" by (rule DayFromYear_mono)
    with YearFromTime_Day [of t] show "DayFromYear y \<le> Day t" by simp
  qed
  then show ?thesis by (simp add: TimeFromYear_le_iff)
qed

text \<open>
  So \<open>YearFromTime\<close> is the function of the standard: the largest year that starts at or
  before the time.
\<close>

section \<open>Facts about the primitives\<close>

lemma trunc_rat_of_int [simp]: "trunc_rat (of_int k) = k"
  by (simp add: trunc_rat_def)

lemma abs_trunc_rat_le:
  assumes "\<bar>x\<bar> \<le> of_int m"
  shows "\<bar>trunc_rat x\<bar> \<le> m"
proof (cases "0 \<le> x")
  case True
  then have "0 \<le> \<lfloor>x\<rfloor>" by simp
  moreover have "\<lfloor>x\<rfloor> \<le> m" using assms True by (simp add: floor_le_iff)
  ultimately show ?thesis using True by (simp add: trunc_rat_def)
next
  case False
  then have "\<lceil>x\<rceil> \<le> 0" by (simp add: ceiling_le_iff)
  moreover have "- m \<le> \<lceil>x\<rceil>" using assms False by (simp add: le_ceiling_iff)
  ultimately show ?thesis using False by (simp add: trunc_rat_def)
qed

lemma wf_date_TimeClip: "wf_date (TimeClip n)"
  by (cases n) (simp_all add: abs_trunc_rat_le)

lemma new_Date_date_Instant:
  "\<bar>t\<bar> \<le> maxTime \<Longrightarrow> new_Date_date (Instant t) = Instant t"
  by (simp add: new_Date_date_def flip: of_int_abs)

lemma new_Date_date_wf: "wf_date d \<Longrightarrow> new_Date_date d = d"
  by (cases d) (simp_all add: new_Date_date_Instant, simp add: new_Date_date_def)

text \<open>The test \<open>y % m === 0\<close> on an integral \<open>y\<close> is divisibility by \<open>m\<close>.\<close>

lemma remainder_zero_iff_dvd:
  assumes "m \<noteq> 0"
  shows "Number_equal (Number_remainder (Fin (of_int y)) (Fin (of_int m))) (Fin 0) \<longleftrightarrow> m dvd y"
proof
  assume "Number_equal (Number_remainder (Fin (of_int y)) (Fin (of_int m))) (Fin 0)"
  then have "rat_of_int y = of_int m * of_int (trunc_rat (of_int y / of_int m))"
    using assms by simp
  then have "rat_of_int y = of_int (m * trunc_rat (of_int y / of_int m))"
    by simp
  then have "y = m * trunc_rat (of_int y / of_int m)"
    by (simp only: of_int_eq_iff)
  then show "m dvd y" by (rule dvdI)
next
  assume "m dvd y"
  then obtain k where k: "y = m * k" by (rule dvdE)
  have "rat_of_int y / of_int m = of_int k" using assms by (simp add: k)
  then show "Number_equal (Number_remainder (Fin (of_int y)) (Fin (of_int m))) (Fin 0)"
    using assms by (simp add: k)
qed

lemma year_test:
  "Number_equal (Number_remainder (Fin (of_int y)) (Fin 4)) (Fin 0) \<longleftrightarrow> 4 dvd y"
  "Number_equal (Number_remainder (Fin (of_int y)) (Fin 100)) (Fin 0) \<longleftrightarrow> 100 dvd y"
  "Number_equal (Number_remainder (Fin (of_int y)) (Fin 400)) (Fin 0) \<longleftrightarrow> 400 dvd y"
  using remainder_zero_iff_dvd [of 4 y] remainder_zero_iff_dvd [of 100 y]
    remainder_zero_iff_dvd [of 400 y]
  by simp_all

lemma dvd_400_imp: "(400::int) dvd y \<Longrightarrow> 100 dvd y" "(100::int) dvd y \<Longrightarrow> 4 dvd y"
  by (rule dvd_trans [of _ 400], simp, assumption) (rule dvd_trans [of _ 100], simp, assumption)

lemma isLeapYear_year:
  assumes "\<bar>t\<bar> \<le> maxTime"
  shows "isLeapYear E (Instant t) = gregorian_leap (YearFromTime (LocalTime E t))"
proof -
  define y where "y = YearFromTime (LocalTime E t)"
  have g: "getFullYear E (new_Date_date (Instant t)) = Fin (of_int y)"
    by (simp add: new_Date_date_Instant [OF assms] y_def)
  have "isLeapYear E (Instant t) = (if 100 dvd y then 400 dvd y else 4 dvd y)"
    unfolding isLeapYear_def g year_test by simp
  also have "\<dots> = gregorian_leap y"
  proof (cases "100 dvd y")
    case True
    then have "4 dvd y" by (rule dvd_400_imp(2))
    with True show ?thesis by (simp add: gregorian_leap_def)
  next
    case False
    then have "\<not> 400 dvd y" using dvd_400_imp(1) [of y] by blast
    with False show ?thesis by (simp add: gregorian_leap_def)
  qed
  finally show ?thesis by (simp add: y_def)
qed

lemma YearFromTime_eval:
  "YearFromTime (- 2206310400000) = 1900"
  "YearFromTime 949363200000 = 2000"
  "YearFromTime 980985600000 = 2001"
  "YearFromTime 1328054400000 = 2012"
  "YearFromTime 1422748800000 = 2015"
  "YearFromTime (- 2177470800000) = 1900"
  "YearFromTime 978289200000 = 2000"
  "YearFromTime 1009825200000 = 2001"
  "YearFromTime 1356980400000 = 2012"
  "YearFromTime 1451588400000 = 2015"
  "YearFromTime 946666800000 = 1999"
  "YearFromTime 946684800000 = 2000"
  by (simp_all add: YearFromTime_def Day_def msPerDay_def DayFromYear_def)

section \<open>Rounding\<close>

lemma two_powi_pos [simp]: "0 < (2::rat) powi k"
  by simp

lemma two_powi_add: "(2::rat) powi (a + b) = 2 powi a * 2 powi b"
  by (rule power_int_add) simp

lemma two_powi_less: "a < b \<Longrightarrow> (2::rat) powi a < 2 powi b"
  by (rule power_int_strict_increasing) simp_all

lemma two_powi_le: "a \<le> b \<Longrightarrow> (2::rat) powi a \<le> 2 powi b"
  by (rule power_int_increasing) simp_all

lemma bitlen_pos: "0 < n \<Longrightarrow> 1 \<le> bitlen n"
  using bitlen_eq_zero_iff [of n] bitlen_nonneg [of n] by linarith

lemma bitlen_rat_bounds:
  assumes "0 < n"
  shows "(2::rat) powi (bitlen n - 1) \<le> of_int n" and "rat_of_int n + 1 \<le> 2 powi bitlen n"
proof -
  have b: "1 \<le> bitlen n" using assms by (rule bitlen_pos)
  from bitlen_bounds [OF assms]
  have lo: "2 ^ nat (bitlen n - 1) \<le> n" and hi: "n + 1 \<le> 2 ^ nat (bitlen n)" by simp_all
  have "rat_of_int (2 ^ nat (bitlen n - 1)) \<le> of_int n"
    using lo by (simp only: of_int_le_iff)
  then show "(2::rat) powi (bitlen n - 1) \<le> of_int n"
    using b by (simp add: power_int_def)
  have "rat_of_int (n + 1) \<le> of_int (2 ^ nat (bitlen n))"
    using hi by (simp only: of_int_le_iff)
  then show "rat_of_int n + 1 \<le> 2 powi bitlen n"
    using b by (simp add: power_int_def)
qed

lemma ilog2_bounds:
  assumes "0 < x"
  shows "2 powi ilog2 x \<le> x" and "x < 2 powi (ilog2 x + 1)"
proof -
  have "2 powi ilog2 x \<le> x \<and> x < 2 powi (ilog2 x + 1)"
  proof (cases "1 \<le> x")
    case True
    define n where "n = \<lfloor>x\<rfloor>"
    have n: "0 < n" using True by (simp add: n_def)
    have nx: "of_int n \<le> x" "x < of_int n + 1" unfolding n_def by linarith+
    have e: "ilog2 x = bitlen n - 1" using True by (simp add: ilog2_def n_def)
    from bitlen_rat_bounds [OF n] nx show ?thesis
      unfolding e by simp
  next
    case False
    define y where "y = 1 / x"
    define m where "m = \<lceil>y\<rceil> - 1"
    have y1: "1 < y" using False assms by (simp add: y_def)
    have m: "0 < m" using y1 by (simp add: m_def less_ceiling_iff)
    have my: "of_int m < y" "y \<le> of_int m + 1"
      using ceiling_correct [of y] by (simp_all add: m_def)
    have e: "ilog2 x = - bitlen m" using False by (simp add: ilog2_def m_def y_def)
    have x: "x = 1 / y" by (simp add: y_def)
    have mpos: "0 < rat_of_int m" using m by simp
    note b = bitlen_rat_bounds [OF m]
    have "y \<le> 2 powi bitlen m" using my(2) b(2) by simp
    then have "1 / 2 powi bitlen m \<le> 1 / y"
      using y1 by (intro divide_left_mono) simp_all
    then have lo: "2 powi (- bitlen m) \<le> x"
      by (simp add: x power_int_minus_divide)
    have "2 powi (bitlen m - 1) < y" using my(1) b(1) by simp
    then have "1 / y < 1 / 2 powi (bitlen m - 1)"
      using y1 by (intro divide_strict_left_mono) simp_all
    then have hi: "x < 2 powi (- bitlen m + 1)"
      using power_int_minus_divide [of "2::rat" "bitlen m - 1"] by (simp add: x)
    from lo hi show ?thesis unfolding e by simp
  qed
  then show "2 powi ilog2 x \<le> x" and "x < 2 powi (ilog2 x + 1)" by simp_all
qed

lemma ilog2_unique:
  assumes "2 powi e \<le> x" and "x < 2 powi (e + 1)"
  shows "ilog2 x = e"
proof -
  have pos: "0 < x" using assms(1) two_powi_pos [of e] by linarith
  note b = ilog2_bounds [OF pos]
  have "\<not> e + 1 \<le> ilog2 x"
  proof
    assume "e + 1 \<le> ilog2 x"
    then have "(2::rat) powi (e + 1) \<le> 2 powi ilog2 x" by (rule two_powi_le)
    with b(1) assms(2) show False by simp
  qed
  moreover have "\<not> ilog2 x + 1 \<le> e"
  proof
    assume "ilog2 x + 1 \<le> e"
    then have "(2::rat) powi (ilog2 x + 1) \<le> 2 powi e" by (rule two_powi_le)
    with b(2) assms(1) show False by simp
  qed
  ultimately show ?thesis by simp
qed

lemma round_even_of_int [simp]: "round_even (of_int k) = k"
  by (simp add: round_even_def)

lemma round_even_error: "\<bar>of_int (round_even q) - q\<bar> \<le> 1 / 2"
proof -
  have "of_int \<lfloor>q\<rfloor> \<le> q" "q < of_int \<lfloor>q\<rfloor> + 1" by linarith+
  then show ?thesis by (auto simp: round_even_def Let_def)
qed

lemma round_even_ge: "of_int k \<le> q \<Longrightarrow> k \<le> round_even q"
proof -
  assume "of_int k \<le> q"
  then have "k \<le> \<lfloor>q\<rfloor>" by (simp add: le_floor_iff)
  then show ?thesis by (auto simp: round_even_def Let_def)
qed

lemma round_even_le: "q \<le> of_int k \<Longrightarrow> round_even q \<le> k"
proof -
  assume le: "q \<le> of_int k"
  show ?thesis
  proof (cases "q = of_int k")
    case True
    then show ?thesis by simp
  next
    case False
    with le have "q < of_int k" by simp
    then have "\<lfloor>q\<rfloor> < k" by (simp add: floor_less_iff)
    then show ?thesis by (auto simp: round_even_def Let_def)
  qed
qed

lemma round_even_minus: "round_even (- q) = - round_even q"
proof (cases "of_int \<lfloor>q\<rfloor> = q")
  case True
  then obtain k where "q = of_int k" by metis
  then show ?thesis by (simp flip: of_int_minus)
next
  case False
  have c: "\<lceil>q\<rceil> = \<lfloor>q\<rfloor> + 1" using False by (simp add: ceiling_altdef)
  have f: "\<lfloor>- q\<rfloor> = - \<lfloor>q\<rfloor> - 1" using c by (simp add: floor_minus)
  show ?thesis
    unfolding round_even_def Let_def f by (auto simp: algebra_simps)
qed

lemma ulp_bounds:
  assumes "x \<noteq> 0"
  shows "2 ^ 52 * 2 powi (ilog2 \<bar>x\<bar> - 52) \<le> \<bar>x\<bar>"
    and "\<bar>x\<bar> < 2 ^ 53 * 2 powi (ilog2 \<bar>x\<bar> - 52)"
proof -
  define e where "e = ilog2 \<bar>x\<bar>"
  have pos: "0 < \<bar>x\<bar>" using assms by simp
  have "(2::rat) powi (52 + (e - 52)) = 2 powi 52 * 2 powi (e - 52)"
    by (rule two_powi_add)
  then have lo: "(2::rat) ^ 52 * 2 powi (e - 52) = 2 powi e" by simp
  have "(2::rat) powi (53 + (e - 52)) = 2 powi 53 * 2 powi (e - 52)"
    by (rule two_powi_add)
  then have hi: "(2::rat) ^ 53 * 2 powi (e - 52) = 2 powi (e + 1)" by (simp add: add.commute)
  show "2 ^ 52 * 2 powi (ilog2 \<bar>x\<bar> - 52) \<le> \<bar>x\<bar>"
    using ilog2_bounds(1) [OF pos] lo unfolding e_def by simp
  show "\<bar>x\<bar> < 2 ^ 53 * 2 powi (ilog2 \<bar>x\<bar> - 52)"
    using ilog2_bounds(2) [OF pos] hi unfolding e_def by simp
qed

lemma fl_nonzero:
  "x \<noteq> 0 \<Longrightarrow>
   fl x = of_int (round_even (x / 2 powi (ilog2 \<bar>x\<bar> - 52))) * 2 powi (ilog2 \<bar>x\<bar> - 52)"
  by (simp add: fl_def Let_def)

text \<open>The rounding of a known binade, for concrete runs.\<close>

lemma fl_binade:
  assumes "2 powi e \<le> \<bar>x\<bar>" and "\<bar>x\<bar> < 2 powi (e + 1)"
  shows "fl x = of_int (round_even (x / 2 powi (e - 52))) * 2 powi (e - 52)"
proof -
  have "0 < (2::rat) powi e" by simp
  with assms(1) have "0 < \<bar>x\<bar>" by linarith
  then have "x \<noteq> 0" by simp
  moreover have "ilog2 \<bar>x\<bar> = e" using assms by (rule ilog2_unique)
  ultimately show ?thesis by (simp add: fl_nonzero)
qed

lemma fl_minus: "fl (- x) = - fl x"
  by (simp add: fl_def Let_def round_even_minus)

lemma fl_0 [simp]: "fl 0 = 0"
  by (simp add: fl_def)

lemma two_powi_nonneg_int: "0 \<le> d \<Longrightarrow> (2::rat) powi d = of_int (2 ^ nat d)"
  by (simp add: power_int_def)

text \<open>A significand below \<open>2 ^ 53\<close> times a power of two is not changed.\<close>

lemma fl_exact:
  assumes "\<bar>m\<bar> < 2 ^ 53"
  shows "fl (of_int m * 2 powi j) = of_int m * 2 powi j"
proof (cases "m = 0")
  case True
  then show ?thesis by simp
next
  case False
  define x where "x = rat_of_int m * 2 powi j"
  define e where "e = ilog2 \<bar>x\<bar>"
  define d where "d = j - (e - 52)"
  have x0: "x \<noteq> 0" using False by (simp add: x_def)
  have ax: "\<bar>x\<bar> = of_int \<bar>m\<bar> * 2 powi j" by (simp add: x_def abs_mult)
  have "rat_of_int \<bar>m\<bar> < of_int (2 ^ 53)" using assms by (simp only: of_int_less_iff)
  then have "\<bar>x\<bar> < 2 powi 53 * 2 powi j"
    unfolding ax by (intro mult_strict_right_mono) simp_all
  then have "\<bar>x\<bar> < 2 powi (53 + j)" by (simp only: two_powi_add)
  moreover have "2 powi e \<le> \<bar>x\<bar>"
    unfolding e_def using ilog2_bounds(1) [of "\<bar>x\<bar>"] x0 by simp
  ultimately have "(2::rat) powi e < 2 powi (53 + j)" by simp
  then have "e < 53 + j"
    using two_powi_le [of "53 + j" e] by (cases "e < 53 + j") simp_all
  then have d: "0 \<le> d" by (simp add: d_def)
  have "(2::rat) powi (d + (e - 52)) = 2 powi d * 2 powi (e - 52)"
    by (rule two_powi_add)
  then have j: "(2::rat) powi j = of_int (2 ^ nat d) * 2 powi (e - 52)"
    by (simp add: d_def two_powi_nonneg_int [OF d, unfolded d_def])
  have q: "x / 2 powi (e - 52) = of_int (m * 2 ^ nat d)"
    by (simp add: x_def j)
  have "fl x = of_int (round_even (x / 2 powi (e - 52))) * 2 powi (e - 52)"
    using x0 by (simp add: fl_nonzero e_def)
  also have "\<dots> = of_int (m * 2 ^ nat d) * 2 powi (e - 52)"
    unfolding q by (simp only: round_even_of_int)
  also have "\<dots> = x" by (simp add: x_def j)
  finally show ?thesis by (simp add: x_def)
qed

lemma fl_int: "\<bar>k\<bar> < 2 ^ 53 \<Longrightarrow> fl (of_int k) = of_int k"
  using fl_exact [of k 0] by simp

lemma fl_half: "\<bar>k\<bar> < 2 ^ 53 \<Longrightarrow> fl (of_int k / 2) = of_int k / 2"
  using fl_exact [of k "- 1"] by simp

text \<open>The relative error of rounding is at most \<open>2 ^ - 53\<close>.\<close>

lemma fl_error: "\<bar>fl x - x\<bar> \<le> \<bar>x\<bar> / 2 ^ 53"
proof (cases "x = 0")
  case True
  then show ?thesis by simp
next
  case False
  define u where "u = (2::rat) powi (ilog2 \<bar>x\<bar> - 52)"
  have u: "0 < u" by (simp add: u_def)
  have f: "fl x = of_int (round_even (x / u)) * u"
    using False by (simp add: fl_nonzero u_def)
  have "fl x - x = (of_int (round_even (x / u)) - x / u) * u"
    using u by (simp add: f algebra_simps)
  then have "\<bar>fl x - x\<bar> = \<bar>of_int (round_even (x / u)) - x / u\<bar> * u"
    using u by (simp add: abs_mult)
  also have "\<dots> \<le> 1 / 2 * u"
    using u round_even_error [of "x / u"] by (intro mult_right_mono) simp_all
  also have "\<dots> \<le> \<bar>x\<bar> / 2 ^ 53"
    using ulp_bounds(1) [OF False] by (simp add: u_def)
  finally show ?thesis .
qed

text \<open>Rounding does not cross an integer, below \<open>2 ^ 53\<close>.\<close>

lemma ulp_inverse:
  assumes "x \<noteq> 0" and "\<bar>x\<bar> < 2 ^ 53"
  shows "\<exists>K::int. 0 < K \<and> 1 / (2::rat) powi (ilog2 \<bar>x\<bar> - 52) = of_int K"
proof -
  define e where "e = ilog2 \<bar>x\<bar>"
  have "2 powi e \<le> \<bar>x\<bar>"
    unfolding e_def using ilog2_bounds(1) [of "\<bar>x\<bar>"] assms(1) by simp
  with assms(2) have "(2::rat) powi e < 2 powi 53" by simp
  then have "e < 53"
    using two_powi_le [of 53 e] by (cases "e < 53") simp_all
  then have d: "0 \<le> 52 - e" by simp
  have "1 / (2::rat) powi (e - 52) = 2 powi (- (e - 52))"
    by (simp only: power_int_minus_divide)
  also have "\<dots> = rat_of_int (2 ^ nat (52 - e))"
    using two_powi_nonneg_int [OF d] by simp
  finally show ?thesis
    unfolding e_def by (intro exI [of _ "2 ^ nat (52 - ilog2 \<bar>x\<bar>)"]) simp
qed

lemma fl_ge_int:
  assumes "of_int n \<le> x" and "\<bar>x\<bar> < 2 ^ 53"
  shows "of_int n \<le> fl x"
proof (cases "x = 0")
  case True
  with assms show ?thesis by simp
next
  case False
  define u where "u = (2::rat) powi (ilog2 \<bar>x\<bar> - 52)"
  have u: "0 < u" by (simp add: u_def)
  from ulp_inverse [OF False assms(2)] obtain K :: int where K: "0 < K" "1 / u = of_int K"
    unfolding u_def by blast
  have uK: "u * of_int K = 1" using K(2) u by (simp add: field_simps)
  have "rat_of_int (n * K) \<le> x * of_int K"
    using assms(1) K(1) by (simp add: mult_right_mono)
  also have "x * of_int K = x / u" by (simp flip: K(2))
  finally have "n * K \<le> round_even (x / u)" by (rule round_even_ge)
  then have "rat_of_int (n * K) \<le> of_int (round_even (x / u))" by (simp only: of_int_le_iff)
  then have le: "rat_of_int (n * K) * u \<le> of_int (round_even (x / u)) * u"
    using u by (simp only: mult_le_cancel_right_pos)
  have "rat_of_int (n * K) * u = of_int n * (u * of_int K)" by simp
  then have nK: "rat_of_int (n * K) * u = of_int n" by (simp only: uK mult_1_right)
  have f: "fl x = of_int (round_even (x / u)) * u"
    using False by (simp add: fl_nonzero u_def)
  from le show ?thesis unfolding nK f .
qed

lemma fl_le_int:
  assumes "x \<le> of_int n" and "\<bar>x\<bar> < 2 ^ 53"
  shows "fl x \<le> of_int n"
proof -
  have "of_int (- n) \<le> fl (- x)"
    using assms by (intro fl_ge_int) simp_all
  then show ?thesis by (simp add: fl_minus)
qed

text \<open>
  \<open>Math.floor(a / b)\<close> on integers, \<open>a\<close> below \<open>2 ^ 53\<close>: the rounded quotient has the
  floor of the exact one.
\<close>

lemma floor_fl_div:
  assumes "0 \<le> a" and "a < 2 ^ 53" and "0 < b"
  shows "\<lfloor>fl (of_int a / of_int b)\<rfloor> = a div b"
proof -
  define x where "x = rat_of_int a / of_int b"
  define n where "n = a div b"
  have b: "0 < rat_of_int b" using assms(3) by simp
  have b1: "1 \<le> rat_of_int b" using assms(3) by simp
  have x0: "0 \<le> x" using assms by (simp add: x_def)
  have "rat_of_int a < of_int (2 ^ 53)" using assms(2) by (simp only: of_int_less_iff)
  then have a53: "rat_of_int a < 2 ^ 53" by simp
  have "x \<le> of_int a"
    unfolding x_def using assms(1) b1 by (simp add: field_simps mult_le_cancel_left1)
  with a53 x0 have x53: "\<bar>x\<bar> < 2 ^ 53" by simp
  have "b * n \<le> a" "a + 1 \<le> b * n + b"
    using div_bounds [OF assms(3), of a] by (simp_all add: n_def)
  then have "rat_of_int (b * n) \<le> of_int a" "rat_of_int (a + 1) \<le> of_int (b * n + b)"
    by (simp_all only: of_int_le_iff)
  then have lo: "of_int n \<le> x" and hi: "x + 1 / of_int b \<le> of_int n + 1"
    using b by (simp_all add: x_def field_simps)
  have ge: "of_int n \<le> fl x" using lo x53 by (rule fl_ge_int)
  have "fl x \<le> x + \<bar>fl x - x\<bar>" by simp
  also have "\<dots> \<le> x + \<bar>x\<bar> / 2 ^ 53" using fl_error [of x] by simp
  also have "\<bar>x\<bar> / 2 ^ 53 = (of_int a / 2 ^ 53) / of_int b"
    unfolding abs_of_nonneg [OF x0] by (simp add: x_def)
  also have "\<dots> < 1 / of_int b"
    using a53 b by (intro divide_strict_right_mono) simp_all
  finally have "fl x < x + 1 / of_int b" by simp
  with hi have "fl x < of_int n + 1" by simp
  with ge have "\<lfloor>fl x\<rfloor> = n" by (intro floor_unique) simp_all
  then show ?thesis by (simp add: x_def n_def)
qed

section \<open>Digits\<close>

lemma digit_char_is_digit: "d < 10 \<Longrightarrow> is_digit (digit_char d)"
proof -
  assume "d < 10"
  then have "d \<in> {0, 1, 2, 3, 4, 5, 6, 7, 8, 9}" by auto
  then show ?thesis by (auto simp: digit_char_def is_digit_def)
qed

lemma digit_val_digit_char: "d < 10 \<Longrightarrow> digit_val (digit_char d) = d"
proof -
  assume "d < 10"
  then have "d \<in> {0, 1, 2, 3, 4, 5, 6, 7, 8, 9}" by auto
  then show ?thesis by (auto simp: digit_char_def digit_val_def)
qed

lemma decimal_small: "n < 10 \<Longrightarrow> decimal n = [digit_char n]"
  by (simp add: decimal.simps)

lemma decimal_large: "10 \<le> n \<Longrightarrow> decimal n = decimal (n div 10) @ [digit_char (n mod 10)]"
  by (subst decimal.simps) simp

lemma decimal_digits: "list_all is_digit (decimal n)"
proof (induction n rule: decimal.induct)
  case (1 n)
  show ?case
  proof (cases "n < 10")
    case True
    then show ?thesis by (simp add: decimal_small digit_char_is_digit)
  next
    case False
    with "1" show ?thesis by (simp add: decimal_large digit_char_is_digit)
  qed
qed

lemma decimal_value_snoc: "decimal_value (s @ [c]) = 10 * decimal_value s + digit_val c"
  by (simp add: decimal_value_def)

lemma decimal_value_decimal: "decimal_value (decimal n) = n"
proof (induction n rule: decimal.induct)
  case (1 n)
  show ?case
  proof (cases "n < 10")
    case True
    then show ?thesis by (simp add: decimal_small decimal_value_def digit_val_digit_char)
  next
    case False
    with "1" show ?thesis
      by (simp add: decimal_large decimal_value_snoc digit_val_digit_char)
  qed
qed

lemma decimal_nonempty: "decimal n \<noteq> []"
  by (cases "n < 10") (simp_all add: decimal_small decimal_large)

lemma length_decimal:
  "n < 10 \<Longrightarrow> length (decimal n) = 1"
  "10 \<le> n \<Longrightarrow> n < 100 \<Longrightarrow> length (decimal n) = 2"
  "100 \<le> n \<Longrightarrow> n < 1000 \<Longrightarrow> length (decimal n) = 3"
  "100 \<le> n \<Longrightarrow> 3 \<le> length (decimal n)"
proof -
  show 1: "length (decimal n) = 1" if "n < 10" for n
    using that by (simp add: decimal_small)
  show 2: "length (decimal n) = 2" if "10 \<le> n" "n < 100" for n
  proof -
    have "n div 10 < 10" using that by simp
    then have "length (decimal (n div 10)) = 1" by (rule 1)
    then show ?thesis using that by (simp add: decimal_large [of n])
  qed
  show "length (decimal n) = 3" if "100 \<le> n" "n < 1000"
  proof -
    have "10 \<le> n div 10" "n div 10 < 100" using that by simp_all
    then have "length (decimal (n div 10)) = 2" by (rule 2)
    then show ?thesis using that by (simp add: decimal_large [of n])
  qed
  show "3 \<le> length (decimal n)" if "100 \<le> n"
  proof -
    have "10 \<le> n div 10" using that by simp
    then have "decimal (n div 10) = decimal (n div 10 div 10) @ [digit_char (n div 10 mod 10)]"
      by (rule decimal_large)
    moreover have "1 \<le> length (decimal (n div 10 div 10))"
      using decimal_nonempty [of "n div 10 div 10"] by (simp add: Suc_le_eq)
    ultimately show ?thesis using that by (simp add: decimal_large)
  qed
qed

lemma decimal_value_zeros: "decimal_value (replicate k CHR ''0'' @ s) = decimal_value s"
proof -
  have "foldl (\<lambda>a c. 10 * a + digit_val c) 0 (replicate k CHR ''0'') = 0"
    by (induction k) (simp_all add: digit_val_def)
  then show ?thesis by (simp add: decimal_value_def)
qed

lemma is_digit_zero: "is_digit CHR ''0''"
  by (simp add: is_digit_def)

text \<open>Reading back a padded decimal gives the number, below \<open>2 ^ 53\<close>.\<close>

lemma StringToNumber_zero_pad:
  assumes "n < 2 ^ 53"
  shows "StringToNumber E (zero_pad w (decimal n)) = Fin (of_nat n)"
proof -
  define s where "s = zero_pad w (decimal n)"
  have ne: "s \<noteq> []" by (simp add: s_def zero_pad_def decimal_nonempty)
  have "\<forall>c\<in>set (decimal n). is_digit c"
    using decimal_digits [of n] by (simp add: list_all_iff)
  then have dg: "list_all is_digit s"
    by (auto simp: s_def zero_pad_def is_digit_zero list_all_iff)
  have v: "decimal_value s = n"
    by (simp add: s_def zero_pad_def decimal_value_zeros decimal_value_decimal)
  have "int n < int (2 ^ 53)" using assms by (simp only: of_nat_less_iff)
  then have "\<bar>int n\<bar> < 2 ^ 53" by simp
  then have "fl (of_int (int n)) = of_int (int n)" by (rule fl_int)
  then have f: "fl (of_nat n) = of_nat n" by (simp only: of_int_of_nat_eq)
  from ne obtain c cs where s: "s = c # cs" by (cases s) auto
  have "StringToNumber E s = Fin (fl (of_nat (decimal_value s)))"
    using dg unfolding StringToNumber_def s by simp
  then have "StringToNumber E s = Fin (of_nat n)" unfolding v f .
  then show ?thesis unfolding s_def .
qed

lemma StringToNumber_NaN: "StringToNumber E ''NaN'' = NaN"
  by (simp add: StringToNumber_def is_digit_def is_letter_def)

text \<open>The padding of the source is \<open>zero_pad\<close>, on a string that is not empty.\<close>

lemma pad2: "s \<noteq> [] \<Longrightarrow> (if length s < 2 then ''0'' @ s else s) = zero_pad 2 s"
proof -
  assume "s \<noteq> []"
  then have "1 \<le> length s" by (simp add: Suc_le_eq)
  then have "length s = 1 \<or> 2 \<le> length s" by arith
  then show ?thesis by (auto simp: zero_pad_def)
qed

lemma pad3:
  assumes "s \<noteq> []"
  shows "(let s1 = (if length s < 2 then ''00'' @ s else s)
          in if length s1 < 3 then ''0'' @ s1 else s1) = zero_pad 3 s"
proof -
  have "1 \<le> length s" using assms by (simp add: Suc_le_eq)
  then consider "length s = 1" | "length s = 2" | "3 \<le> length s" by arith
  then show ?thesis
  proof cases
    case 1
    have "replicate 2 CHR ''0'' = ''00''" by (simp add: numeral_2_eq_2)
    with 1 show ?thesis by (simp add: zero_pad_def)
  next
    case 2
    then show ?thesis by (simp add: zero_pad_def)
  next
    case 3
    then show ?thesis by (simp add: zero_pad_def)
  qed
qed

lemma Number_toString_nat:
  "n < 10 ^ 21 \<Longrightarrow> Number_toString E (Fin (of_nat n)) = decimal n"
proof -
  assume "n < 10 ^ 21"
  then have "rat_of_nat n < of_nat (10 ^ 21)" by (simp only: of_nat_less_iff)
  then show ?thesis by simp
qed

section \<open>The parsers\<close>

lemma new_Date_string_wf: "wf_date (new_Date_string E s)"
  by (simp add: new_Date_string_def wf_date_TimeClip)

text \<open>
  The constructor, and with it both parsers, throws on some values: on a Symbol, on a
  BigInt, and on an object whose conversion to a primitive throws.
\<close>

lemma parsers_throw:
  "parseDataFromRfc2822 E (Primitive JSymbol) = Throw TypeError"
  "parseDataFromIso8601 E (Primitive JSymbol) = Throw TypeError"
  "parseDataFromRfc2822 E (Primitive (JBigInt i)) = Throw TypeError"
  "parseDataFromIso8601 E (Primitive (JBigInt i)) = Throw TypeError"
  "parseDataFromRfc2822 E (Object (Throw e)) = Throw e"
  "parseDataFromIso8601 E (Object (Throw e)) = Throw e"
  by (simp_all add: parseDataFromRfc2822_def parseDataFromIso8601_def)

text \<open>
  The examples of the source that are in a format of the standard have the same time value
  on every engine.
\<close>

lemma Date_parse_standard:
  "Date_parse E ''Tue, 26 Jan 2016 13:48:02 GMT'' = Fin 1453816082000"
  "Date_parse E ''2016-01-19T16:07:37+00:00'' = Fin 1453219657000"
  "Date_parse E ''2016-01-19T08:07:37Z'' = Fin 1453190857000"
  by code_simp+

text \<open>
  A date-time with no offset is a local time. The other two examples of the source are
  read by the engine; the reference engine, five hours behind UTC, reads them as a browser
  in that zone does. It reads no date in \<open>not a date\<close>.
\<close>

lemma Date_parse_reference:
  "Date_parse (reference_engine (- 18000000)) ''2016-01-19T16:07:37'' = Fin 1453237657000"
  "Date_parse (reference_engine (- 18000000)) ''December 17, 1995 03:24:00'' = Fin 819188640000"
  "Date_parse (reference_engine (- 18000000)) ''Sun, 17 May 1998 03:00:00 GMT+01'' =
     Fin 895370400000"
  "Date_parse (reference_engine (- 18000000)) ''not a date'' = NaN"
  by code_simp+

text \<open>No format of the standard reads \<open>not a date\<close>: what it is, the engine decides.\<close>

lemma Date_parse_not_a_date: "Date_parse E ''not a date'' = Date_parse_rest E ''not a date''"
proof -
  have "parse_iso ''not a date'' = None" "parse_utc_string ''not a date'' = None"
    by code_simp+
  then show ?thesis by (simp add: Date_parse_def)
qed

text \<open>
  C9. \<open>parseDataFromRfc2822\<close> and \<open>parseDataFromIso8601\<close> are the same function: on every
  engine and every value, so on every string, they return the same result. Both hand the
  value to the constructor, and neither looks at the format.
\<close>

theorem parsers_equal: "parseDataFromRfc2822 E v = parseDataFromIso8601 E v"
  by (simp add: parseDataFromRfc2822_def parseDataFromIso8601_def)

text \<open>
  C4. On every string both parsers complete normally, with a Date object (the invalid date
  or an instant in range), and never with an exception; and when the string is unparseable,
  that is \<open>Date.parse\<close> reads no date in it and gives \<open>NaN\<close>, both return the invalid date.
\<close>

theorem parsers_never_throw:
  "(\<exists>d. parseDataFromRfc2822 E (Primitive (JString s)) = Normal d \<and> wf_date d) \<and>
   (\<exists>d. parseDataFromIso8601 E (Primitive (JString s)) = Normal d \<and> wf_date d) \<and>
   (Date_parse E s = NaN \<longrightarrow>
      parseDataFromRfc2822 E (Primitive (JString s)) = Normal InvalidDate \<and>
      parseDataFromIso8601 E (Primitive (JString s)) = Normal InvalidDate)"
  by (simp add: parseDataFromRfc2822_def parseDataFromIso8601_def new_Date_string_wf)
    (simp add: new_Date_string_def)

theorem parsers_never_throw_witness:
  "Date_parse (reference_engine (- 18000000)) ''not a date'' = NaN \<and>
   parseDataFromRfc2822 (reference_engine (- 18000000)) (Primitive (JString ''not a date'')) =
     Normal InvalidDate \<and>
   parseDataFromIso8601 (reference_engine (- 18000000)) (Primitive (JString ''not a date'')) =
     Normal InvalidDate"
  using parsers_never_throw [of "reference_engine (- 18000000)" "''not a date''"]
  by (simp add: Date_parse_reference(4))

section \<open>Leap years\<close>

text \<open>
  C2, as it is stated, takes the calendar year of the instant, which the specification
  reads in UTC. \<open>isLeapYear\<close> takes the year \<open>getFullYear\<close> reads, in local time: five hours
  behind UTC, the first instant of the UTC year 2000 (a leap year) is in the local year
  1999, and the result is false.
\<close>

theorem isLeapYear_utc_year_counterexample:
  "\<bar>946684800000\<bar> \<le> maxTime \<and>
   YearFromTime 946684800000 = 2000 \<and> gregorian_leap 2000 \<and>
   YearFromTime (946684800000 + LocalTZA (reference_engine (- 18000000)) 946684800000 True) =
     1999 \<and>
   isLeapYear (reference_engine (- 18000000)) (Instant 946684800000) = False"
  using isLeapYear_year [of 946684800000 "reference_engine (- 18000000)"]
  by (simp add: maxTime_def LocalTime_def reference_engine_def YearFromTime_eval
      gregorian_leap_def)

text \<open>
  C2, amended. For every instant, \<open>isLeapYear\<close> is true exactly when the calendar year of the
  instant in local time (the year \<open>getFullYear\<close> reads, the year of \<open>t + LocalTZA t true\<close>)
  satisfies the Gregorian rule:
  divisible by 4 and (not divisible by 100, or divisible by 400). So it is false in the
  local year 1900, true in 2000, false in 2001, true in 2012 and false in 2015.
\<close>

theorem isLeapYear_gregorian:
  assumes "\<bar>t\<bar> \<le> maxTime" and "y = YearFromTime (t + LocalTZA E t True)"
  shows "isLeapYear E (Instant t) = gregorian_leap y \<and>
         (y = 1900 \<longrightarrow> isLeapYear E (Instant t) = False) \<and>
         (y = 2000 \<longrightarrow> isLeapYear E (Instant t) = True) \<and>
         (y = 2001 \<longrightarrow> isLeapYear E (Instant t) = False) \<and>
         (y = 2012 \<longrightarrow> isLeapYear E (Instant t) = True) \<and>
         (y = 2015 \<longrightarrow> isLeapYear E (Instant t) = False)"
proof -
  have "isLeapYear E (Instant t) = gregorian_leap y"
    using assms by (simp add: isLeapYear_year LocalTime_def)
  then show ?thesis by (auto simp: gregorian_leap_def)
qed

text \<open>
  Five hours behind UTC, at the first instants of the UTC years 1901, 2001, 2002, 2013 and
  2016, which are in the local years 1900, 2000, 2001, 2012 and 2015.
\<close>

theorem isLeapYear_gregorian_witness:
  "isLeapYear (reference_engine (- 18000000)) (Instant (- 2177452800000)) = False \<and>
   isLeapYear (reference_engine (- 18000000)) (Instant 978307200000) = True \<and>
   isLeapYear (reference_engine (- 18000000)) (Instant 1009843200000) = False \<and>
   isLeapYear (reference_engine (- 18000000)) (Instant 1356998400000) = True \<and>
   isLeapYear (reference_engine (- 18000000)) (Instant 1451606400000) = False"
  using isLeapYear_gregorian [of "- 2177452800000" 1900 "reference_engine (- 18000000)"]
    isLeapYear_gregorian [of 978307200000 2000 "reference_engine (- 18000000)"]
    isLeapYear_gregorian [of 1009843200000 2001 "reference_engine (- 18000000)"]
    isLeapYear_gregorian [of 1356998400000 2012 "reference_engine (- 18000000)"]
    isLeapYear_gregorian [of 1451606400000 2015 "reference_engine (- 18000000)"]
  by (simp add: maxTime_def LocalTime_def reference_engine_def YearFromTime_eval
      gregorian_leap_def)

text \<open>Where local time is UTC, the year is the UTC year of the instant.\<close>

lemma isLeapYear_utc:
  assumes "\<bar>t\<bar> \<le> maxTime" and "LocalTZA E t True = 0"
  shows "isLeapYear E (Instant t) = gregorian_leap (YearFromTime t)"
  using isLeapYear_year [OF assms(1), of E] assms(2) by (simp add: LocalTime_def)

text \<open>
  C10. On the invalid date \<open>isLeapYear\<close> returns false: the year is \<open>NaN\<close>, every remainder
  of it is \<open>NaN\<close>, and \<open>NaN === 0\<close> is false in each of the tests.
\<close>

theorem isLeapYear_invalid: "isLeapYear E InvalidDate = False"
  by (simp add: isLeapYear_def new_Date_date_def)

section \<open>Time spans\<close>

lemma trunc_rat_minus: "trunc_rat (- x) = - trunc_rat x"
proof -
  consider "x = 0" | "0 < x" | "x < 0" by linarith
  then show ?thesis
  proof cases
    case 1
    then show ?thesis by (simp add: trunc_rat_def)
  next
    case 2
    then show ?thesis by (simp add: trunc_rat_def ceiling_minus)
  next
    case 3
    then show ?thesis by (simp add: trunc_rat_def floor_minus)
  qed
qed

text \<open>The magnitude of the difference does not depend on the order of the operands.\<close>

lemma dif_swap:
  "Math_abs (thisTimeValue (new_Date_number (Number_subtract a b))) =
   Math_abs (thisTimeValue (new_Date_number (Number_subtract b a)))"
proof (cases a)
  case NaN
  then show ?thesis by (cases b) simp_all
next
  case (Fin x)
  note a = this
  show ?thesis
  proof (cases b)
    case NaN
    with a show ?thesis by simp
  next
    case (Fin y)
    define z where "z = fl (x - y)"
    have "fl (y - x) = fl (- (x - y))" by simp
    then have yx: "fl (y - x) = - z" by (simp only: fl_minus z_def)
    show ?thesis
      unfolding a Fin new_Date_number_def Number_subtract.simps yx z_def [symmetric]
      by (simp add: trunc_rat_minus)
  qed
qed

lemma floor_divide_nat:
  assumes "a < 2 ^ 53" and "0 < b"
  shows "Math_floor (Number_divide (Fin (of_nat a)) (Fin (of_nat b))) = Fin (of_nat (a div b))"
proof -
  have "int a < int (2 ^ 53)" using assms(1) by (simp only: of_nat_less_iff)
  then have "int a < 2 ^ 53" by simp
  then have "\<lfloor>fl (of_int (int a) / of_int (int b))\<rfloor> = int a div int b"
    using assms(2) by (intro floor_fl_div) simp_all
  then have "\<lfloor>fl (rat_of_nat a / of_nat b)\<rfloor> = int (a div b)"
    by (simp add: zdiv_int)
  then show ?thesis using assms(2) by simp
qed

lemma fl_nat: "n < 2 ^ 53 \<Longrightarrow> fl (of_nat n) = of_nat n"
proof -
  assume "n < 2 ^ 53"
  then have "int n < int (2 ^ 53)" by (simp only: of_nat_less_iff)
  then have "\<bar>int n\<bar> < 2 ^ 53" by simp
  then have "fl (of_int (int n)) = of_int (int n)" by (rule fl_int)
  then show ?thesis by (simp only: of_int_of_nat_eq)
qed

lemma multiply_nat:
  "a * b < 2 ^ 53 \<Longrightarrow>
   Number_multiply (Fin (of_nat a)) (Fin (of_nat b)) = Fin (of_nat (a * b))"
  using fl_nat [of "a * b"] by simp

lemma subtract_nat:
  "b \<le> a \<Longrightarrow> a < 2 ^ 53 \<Longrightarrow>
   Number_subtract (Fin (of_nat a)) (Fin (of_nat b)) = Fin (of_nat (a - b))"
  using fl_nat [of "a - b"] by (simp add: of_nat_diff)

lemma floor_nat: "Math_floor (Fin (of_nat n)) = Fin (of_nat n)"
  by simp

lemma abs_nat: "Math_abs (Fin (of_nat n)) = Fin (of_nat n)"
  by simp

lemma mod_div_nat: "0 < a \<Longrightarrow> (n mod (a * b)) div a = n div a mod (b::nat)"
  by (simp add: mod_mult2_eq)

lemma mod_mod_nat: "(n mod (a * b)) mod a = n mod (a::nat)"
  by (simp add: mod_mult2_eq)

text \<open>Within the range of time values the difference is exact.\<close>

lemma dif_in_range:
  assumes "\<bar>e - s\<bar> \<le> maxTime"
  shows "Math_abs (thisTimeValue (new_Date_number
           (Number_subtract (thisTimeValue (Instant e)) (thisTimeValue (Instant s))))) =
         Fin (of_nat (nat \<bar>e - s\<bar>))"
proof -
  have "\<bar>e - s\<bar> < 2 ^ 53" using assms by (simp add: maxTime_def)
  then have "fl (of_int (e - s)) = of_int (e - s)" by (rule fl_int)
  then have sub: "Number_subtract (Fin (of_int e)) (Fin (of_int s)) = Fin (of_int (e - s))"
    by simp
  have "\<not> rat_of_int maxTime < \<bar>of_int (e - s)\<bar>"
    using assms by (simp flip: of_int_abs)
  then have clip: "TimeClip (Fin (of_int (e - s))) = Instant (e - s)"
    by (simp del: of_int_diff)
  have "rat_of_int \<bar>e - s\<bar> = of_nat (nat \<bar>e - s\<bar>)" by simp
  then show ?thesis
    unfolding thisTimeValue.simps sub new_Date_number_def clip Math_abs.simps
    by (simp only: of_int_abs)
qed

text \<open>The hours, minutes, seconds and milliseconds of a number of milliseconds.\<close>

lemma timeSpanToString_in_range:
  assumes "\<bar>e - s\<bar> \<le> maxTime"
  shows "timeSpanToString E (Instant s) (Instant e) = render_span (nat \<bar>e - s\<bar>)"
proof -
  define D where "D = nat \<bar>e - s\<bar>"
  define H where "H = D div 3600000"
  define M where "M = D div 60000 mod 60"
  define S where "S = D div 1000 mod 60"
  have D: "D \<le> 8640000000000000" using assms by (simp add: D_def maxTime_def)
  then have D53: "D < 2 ^ 53" by simp
  have H: "H \<le> 2400000000" using D by (simp add: H_def)
  have M: "M < 60" and S: "S < 60" by (simp_all add: M_def S_def)
  have HD: "H * 3600000 \<le> D" by (simp add: H_def)
  have r1: "D - H * 3600000 = D mod 3600000"
    by (simp add: H_def minus_div_mult_eq_mod)
  have M': "(D mod 3600000) div 60000 = M"
    using mod_div_nat [of 60000 D 60] by (simp add: M_def)
  have r2: "D mod 3600000 - M * 60000 = D mod 60000"
    using mod_mod_nat [of D 60000 60] minus_div_mult_eq_mod [of "D mod 3600000" 60000]
    by (simp add: M')
  have S': "(D mod 60000) div 1000 = S"
    using mod_div_nat [of 1000 D 60] by (simp add: S_def)
  have r3: "D mod 60000 - S * 1000 = D mod 1000"
    using mod_mod_nat [of D 1000 60] minus_div_mult_eq_mod [of "D mod 60000" 1000]
    by (simp add: S')
  have MD: "M * 60000 \<le> D mod 3600000"
    unfolding M' [symmetric] by simp
  have SD: "S * 1000 \<le> D mod 60000"
    unfolding S' [symmetric] by simp
  have dif: "Math_abs (thisTimeValue (new_Date_number
           (Number_subtract (thisTimeValue (Instant e)) (thisTimeValue (Instant s))))) =
         Fin (of_nat D)"
    unfolding D_def using assms by (rule dif_in_range)
  have str: "Number_toString E (Fin (of_nat n)) = decimal n" if "n < 2 ^ 53" for n
    using that by (intro Number_toString_nat) simp
  have num: "StringToNumber E (zero_pad 2 (decimal n)) = Fin (of_nat n)" if "n < 2 ^ 53" for n
    using that by (rule StringToNumber_zero_pad)
  have pad: "(if length (decimal n) < 2 then ''0'' @ decimal n else decimal n) =
      zero_pad 2 (decimal n)" for n
    by (rule pad2) (rule decimal_nonempty)
  have hours0: "Number_toString E (Math_floor (Number_divide (Fin (of_nat D)) (Fin 3600000))) =
      decimal H"
    using floor_divide_nat [OF D53, of 3600000] H by (simp add: str H_def)
  have hours: "StringToNumber E (zero_pad 2 (decimal H)) = Fin (of_nat H)"
    using H by (intro num) simp
  have rest1: "Number_subtract (Fin (of_nat D)) (Number_multiply (Fin (of_nat H)) (Fin 3600000)) =
      Fin (of_nat (D mod 3600000))"
    using multiply_nat [of H 3600000] subtract_nat [of "H * 3600000" D] HD D53 H
    by (simp add: r1)
  have minutes0: "Number_toString E (Math_abs (Math_floor (Number_divide
      (Fin (of_nat (D mod 3600000))) (Fin 60000)))) = decimal M"
    using floor_divide_nat [of "D mod 3600000" 60000] D53 M by (simp add: str M')
  have minutes: "StringToNumber E (zero_pad 2 (decimal M)) = Fin (of_nat M)"
    using M by (intro num) simp
  have rest2: "Number_subtract (Fin (of_nat (D mod 3600000)))
      (Number_multiply (Fin (of_nat M)) (Fin 60000)) = Fin (of_nat (D mod 60000))"
    using multiply_nat [of M 60000] subtract_nat [of "M * 60000" "D mod 3600000"] M MD D53
    by (simp add: r2)
  have secs0: "Number_toString E (Math_abs (Math_floor (Number_divide
      (Fin (of_nat (D mod 60000))) (Fin 1000)))) = decimal S"
    using floor_divide_nat [of "D mod 60000" 1000] S by (simp add: str S')
  have secs: "StringToNumber E (zero_pad 2 (decimal S)) = Fin (of_nat S)"
    using S by (intro num) simp
  have rest3: "Number_subtract (Fin (of_nat (D mod 60000)))
      (Number_multiply (Fin (of_nat S)) (Fin 1000)) = Fin (of_nat (D mod 1000))"
    using multiply_nat [of S 1000] subtract_nat [of "S * 1000" "D mod 60000"] S SD D53
    by (simp add: r3)
  have mlsecs0: "Number_toString E (Math_abs (Math_floor (Fin (of_nat (D mod 1000))))) =
      decimal (D mod 1000)"
    by (simp add: str del: Number_toString.simps)
  have mlsecs: "(let s1 = (if length (decimal (D mod 1000)) < 2
                           then ''00'' @ decimal (D mod 1000) else decimal (D mod 1000))
                 in if length s1 < 3 then ''0'' @ s1 else s1) = zero_pad 3 (decimal (D mod 1000))"
    by (rule pad3) (rule decimal_nonempty)
  show ?thesis
    unfolding timeSpanToString_def dif
    unfolding Let_def hours0 pad hours rest1 minutes0 minutes rest2 secs0 secs rest3 mlsecs0
    unfolding mlsecs [unfolded Let_def] render_span_def D_def [symmetric] H_def M_def S_def
    by (rule refl)
qed

text \<open>Beyond \<open>2 ^ 53\<close> the rounded value stays beyond \<open>2 ^ 53\<close>.\<close>

lemma fl_big_pos:
  assumes "2 ^ 53 \<le> x"
  shows "2 ^ 53 \<le> fl x"
proof -
  define e where "e = ilog2 x"
  define u where "u = (2::rat) powi (e - 52)"
  have xpos: "0 < x" by (rule less_le_trans [OF _ assms]) simp
  then have x0: "x \<noteq> 0" and ax: "\<bar>x\<bar> = x" by simp_all
  have u: "0 < u" by (simp add: u_def)
  have "x < 2 powi (e + 1)"
    using ilog2_bounds(2) [OF xpos] unfolding e_def .
  with assms have "(2::rat) powi 53 < 2 powi (e + 1)" by simp
  then have "53 < e + 1"
    using two_powi_le [of "e + 1" 53] by (cases "53 < e + 1") simp_all
  then have "(2::rat) powi 1 \<le> 2 powi (e - 52)" by (intro two_powi_le) simp
  then have u2: "2 \<le> u" by (simp add: u_def)
  have "2 ^ 52 * u \<le> x"
    using ulp_bounds(1) [OF x0] unfolding ax e_def [symmetric] u_def [symmetric] .
  then have "rat_of_int (2 ^ 52) \<le> x / u" using u by (simp add: pos_le_divide_eq)
  then have "2 ^ 52 \<le> round_even (x / u)" by (rule round_even_ge)
  then have "rat_of_int (2 ^ 52) \<le> of_int (round_even (x / u))" by (simp only: of_int_le_iff)
  then have "rat_of_int (2 ^ 52) * 2 \<le> of_int (round_even (x / u)) * u"
    using u2 by (intro mult_mono) simp_all
  moreover have "fl x = of_int (round_even (x / u)) * u"
    using fl_nonzero [OF x0] unfolding ax e_def [symmetric] u_def [symmetric] .
  ultimately show ?thesis by simp
qed

lemma fl_beyond_maxTime:
  assumes "maxTime < \<bar>d\<bar>"
  shows "rat_of_int maxTime < \<bar>fl (of_int d)\<bar>"
proof -
  have "rat_of_int maxTime < fl (of_int k)" if k: "maxTime < k" for k
  proof (cases "k < 2 ^ 53")
    case True
    then have "\<bar>k\<bar> < 2 ^ 53" using k by (simp add: maxTime_def)
    then have "fl (of_int k) = of_int k" by (rule fl_int)
    with k show ?thesis by simp
  next
    case False
    then have "rat_of_int (2 ^ 53) \<le> of_int k" by (simp only: of_int_le_iff)
    then have "2 ^ 53 \<le> fl (of_int k)" by (intro fl_big_pos) simp
    then show ?thesis by (simp add: maxTime_def)
  qed
  note pos = this
  show ?thesis
  proof (cases "0 \<le> d")
    case True
    with assms pos [of d] show ?thesis by simp
  next
    case False
    with assms pos [of "- d"] have "rat_of_int maxTime < fl (- of_int d)" by simp
    then show ?thesis by (simp add: fl_minus)
  qed
qed

text \<open>
  When the difference of the time values is more than 8.64e15 in magnitude, \<open>new Date\<close>
  makes the invalid date of it, and every field is the string \<open>"NaN"\<close>.
\<close>

lemma timeSpanToString_NaN:
  assumes "Math_abs (thisTimeValue (new_Date_number
             (Number_subtract (thisTimeValue endDate) (thisTimeValue startDate)))) = NaN"
  shows "timeSpanToString E startDate endDate = ''NaN:NaN:NaN.NaN''"
  unfolding timeSpanToString_def assms
  by (simp add: Let_def StringToNumber_NaN)

lemma timeSpanToString_beyond_range:
  assumes "maxTime < \<bar>e - s\<bar>"
  shows "timeSpanToString E (Instant s) (Instant e) = ''NaN:NaN:NaN.NaN''"
proof -
  have "rat_of_int maxTime < \<bar>fl (of_int (e - s))\<bar>"
    using assms by (rule fl_beyond_maxTime)
  then have "TimeClip (Fin (fl (of_int e - of_int s))) = InvalidDate"
    by simp
  then show ?thesis
    by (intro timeSpanToString_NaN) (simp add: new_Date_number_def)
qed

lemma timeSpanToString_invalid:
  "timeSpanToString E InvalidDate d = ''NaN:NaN:NaN.NaN''"
  "timeSpanToString E d InvalidDate = ''NaN:NaN:NaN.NaN''"
  by (rule timeSpanToString_NaN, simp add: new_Date_number_def)+

text \<open>The widths of the fields.\<close>

lemma length_zero_pad: "length (zero_pad w s) = max w (length s)"
  by (simp add: zero_pad_def)

lemma length_decimal_60: "n < 60 \<Longrightarrow> length (zero_pad 2 (decimal n)) = 2"
proof -
  assume n: "n < 60"
  show ?thesis
  proof (cases "n < 10")
    case True
    then show ?thesis by (simp add: length_zero_pad length_decimal(1))
  next
    case False
    with n show ?thesis by (simp add: length_zero_pad length_decimal(2))
  qed
qed

lemma length_decimal_1000: "n < 1000 \<Longrightarrow> length (zero_pad 3 (decimal n)) = 3"
proof -
  assume n: "n < 1000"
  consider "n < 10" | "10 \<le> n" "n < 100" | "100 \<le> n" by linarith
  then show ?thesis
  proof cases
    case 1
    then show ?thesis by (simp add: length_zero_pad length_decimal(1))
  next
    case 2
    then show ?thesis by (simp add: length_zero_pad length_decimal(2))
  next
    case 3
    with n show ?thesis by (simp add: length_zero_pad length_decimal(3))
  qed
qed

lemma render_span_examples:
  "render_span 3600000 = ''01:00:00.000''"
  "render_span 250 = ''00:00:00.250''"
  "render_span 19210453 = ''05:20:10.453''"
  "render_span 8640000000000001 = ''2400000000:00:00.001''"
proof -
  have r: "replicate 2 CHR ''0'' = ''00''" "replicate (Suc 0) CHR ''0'' = ''0''"
    by (simp_all add: numeral_2_eq_2)
  show "render_span 3600000 = ''01:00:00.000''"
    "render_span 250 = ''00:00:00.250''"
    "render_span 19210453 = ''05:20:10.453''"
    "render_span 8640000000000001 = ''2400000000:00:00.001''"
    by (simp_all add: render_span_def zero_pad_def decimal.simps digit_char_def r)
qed

text \<open>
  The examples of the source: from 10:00:00 on 1 February 2000 (UTC) to 11:00:00, to
  10:00:00.250 and to 15:20:10.453.
\<close>

lemma timeSpanToString_examples:
  "timeSpanToString E (Instant 949399200000) (Instant 949402800000) = ''01:00:00.000''"
  "timeSpanToString E (Instant 949399200000) (Instant 949399200250) = ''00:00:00.250''"
  "timeSpanToString E (Instant 949399200000) (Instant 949418410453) = ''05:20:10.453''"
  using timeSpanToString_in_range [of 949402800000 949399200000 E]
    timeSpanToString_in_range [of 949399200250 949399200000 E]
    timeSpanToString_in_range [of 949418410453 949399200000 E]
  by (simp_all add: maxTime_def render_span_examples)

text \<open>
  From 100 hours on, and up to 8.64e15 milliseconds, the hours take three digits or more
  and are not padded; minutes, seconds and milliseconds keep 2, 2 and 3 digits.
\<close>

lemma timeSpanToString_widths:
  assumes "360000000 \<le> \<bar>e - s\<bar>" and "\<bar>e - s\<bar> \<le> maxTime"
  shows "timeSpanToString E (Instant s) (Instant e) =
           decimal (nat \<bar>e - s\<bar> div 3600000) @ '':'' @
           zero_pad 2 (decimal (nat \<bar>e - s\<bar> div 60000 mod 60)) @ '':'' @
           zero_pad 2 (decimal (nat \<bar>e - s\<bar> div 1000 mod 60)) @ ''.'' @
           zero_pad 3 (decimal (nat \<bar>e - s\<bar> mod 1000))"
    and "3 \<le> length (decimal (nat \<bar>e - s\<bar> div 3600000))"
    and "length (zero_pad 2 (decimal (nat \<bar>e - s\<bar> div 60000 mod 60))) = 2"
    and "length (zero_pad 2 (decimal (nat \<bar>e - s\<bar> div 1000 mod 60))) = 2"
    and "length (zero_pad 3 (decimal (nat \<bar>e - s\<bar> mod 1000))) = 3"
proof -
  define D where "D = nat \<bar>e - s\<bar>"
  have "360000000 \<le> D" using assms(1) by (simp add: D_def)
  then have "100 \<le> D div 3600000" by simp
  then show h: "3 \<le> length (decimal (nat \<bar>e - s\<bar> div 3600000))"
    unfolding D_def by (rule length_decimal(4))
  then have "zero_pad 2 (decimal (D div 3600000)) = decimal (D div 3600000)"
    by (simp add: zero_pad_def D_def)
  then show "timeSpanToString E (Instant s) (Instant e) =
           decimal (nat \<bar>e - s\<bar> div 3600000) @ '':'' @
           zero_pad 2 (decimal (nat \<bar>e - s\<bar> div 60000 mod 60)) @ '':'' @
           zero_pad 2 (decimal (nat \<bar>e - s\<bar> div 1000 mod 60)) @ ''.'' @
           zero_pad 3 (decimal (nat \<bar>e - s\<bar> mod 1000))"
    unfolding timeSpanToString_in_range [OF assms(2)] render_span_def D_def by simp
  show "length (zero_pad 2 (decimal (nat \<bar>e - s\<bar> div 60000 mod 60))) = 2"
    by (rule length_decimal_60) simp
  show "length (zero_pad 2 (decimal (nat \<bar>e - s\<bar> div 1000 mod 60))) = 2"
    by (rule length_decimal_60) simp
  show "length (zero_pad 3 (decimal (nat \<bar>e - s\<bar> mod 1000))) = 3"
    by (rule length_decimal_1000) simp
qed

text \<open>
  C7. For every pair of Date objects, valid or not, \<open>timeSpanToString\<close> gives the same
  string when start and end are swapped: only the magnitude of the difference is used.
\<close>

theorem timeSpanToString_symmetric: "timeSpanToString E a b = timeSpanToString E b a"
  by (simp only: timeSpanToString_def dif_swap [of "thisTimeValue b" "thisTimeValue a"])

text \<open>
  C3. The claim is that every pair of instants is rendered as \<open>HH:mm:ss.sss\<close>. The source
  wraps the difference in \<open>new Date\<close>, whose time values end at 8.64e15 milliseconds: from
  the first instant a Date can hold to one millisecond after the epoch, two valid dates
  8640000000000001 milliseconds apart, the result is \<open>NaN:NaN:NaN.NaN\<close> and not
  \<open>2400000000:00:00.001\<close>. (Up to 8.64e15 milliseconds the rendering is right:
  \<open>timeSpanToString_in_range\<close>, and \<open>timeSpanToString_examples\<close> for the three examples.)
\<close>

theorem timeSpanToString_not_rendered:
  "wf_date (Instant (- 8640000000000000)) \<and> wf_date (Instant 1) \<and>
   timeSpanToString E (Instant (- 8640000000000000)) (Instant 1) = ''NaN:NaN:NaN.NaN'' \<and>
   render_span (nat \<bar>1 - (- 8640000000000000)\<bar>) = ''2400000000:00:00.001''"
  using timeSpanToString_beyond_range [of 1 "- 8640000000000000" E]
  by (simp add: maxTime_def render_span_examples)

text \<open>
  C8. The claim is that the hours are not bounded and that minutes, seconds and
  milliseconds keep 2, 2 and 3 digits for every span of 100 hours or more. Between the
  first and the last instant a Date can hold, 4800000000 hours apart, every field is
  \<open>NaN\<close>: no digits, and three characters for the minutes and the seconds. (Between
  100 hours and 8.64e15 milliseconds the claim holds: \<open>timeSpanToString_widths\<close>.)
\<close>

theorem timeSpanToString_hours_bounded:
  "wf_date (Instant (- 8640000000000000)) \<and> wf_date (Instant 8640000000000000) \<and>
   (360000000::int) \<le> \<bar>8640000000000000 - (- 8640000000000000)\<bar> \<and>
   timeSpanToString E (Instant (- 8640000000000000)) (Instant 8640000000000000) =
     ''NaN:NaN:NaN.NaN''"
  using timeSpanToString_beyond_range [of 8640000000000000 "- 8640000000000000" E]
  by (simp add: maxTime_def)

section \<open>Clock hands\<close>

lemma HourFromTime_range: "0 \<le> HourFromTime t" "HourFromTime t < 24"
  by (simp_all add: HourFromTime_def)

lemma MinFromTime_range: "0 \<le> MinFromTime t" "MinFromTime t < 60"
  by (simp_all add: MinFromTime_def)

text \<open>The angle is a function of the UTC hour and minute of the instant.\<close>

lemma clockHandsDegrees_fields:
  assumes "\<bar>t\<bar> \<le> maxTime" and "\<bar>t'\<bar> \<le> maxTime"
    and "HourFromTime t = HourFromTime t'" and "MinFromTime t = MinFromTime t'"
  shows "clockHandsDegrees (Instant t) = clockHandsDegrees (Instant t')"
  using assms by (simp add: clockHandsDegrees_def new_Date_date_Instant Let_def)

lemma angleBetweenClockHands_fields:
  assumes "\<bar>t\<bar> \<le> maxTime" and "\<bar>t'\<bar> \<le> maxTime"
    and "HourFromTime t = HourFromTime t'" and "MinFromTime t = MinFromTime t'"
  shows "angleBetweenClockHands (Instant t) = angleBetweenClockHands (Instant t')"
  using clockHandsDegrees_fields [OF assms] by (simp add: angleBetweenClockHands_def)

text \<open>
  The instants of the examples of the source, \<open>Date.UTC(2016,2,5,0,0)\<close>,
  \<open>Date.UTC(2016,3,5,3,0)\<close>, \<open>Date.UTC(2016,3,5,18,0)\<close> and \<open>Date.UTC(2016,3,5,21,0)\<close>,
  and 03:16 on the day of the last three.
\<close>

lemma example_fields:
  "HourFromTime 1457136000000 = 0" "MinFromTime 1457136000000 = 0"
  "HourFromTime 1459825200000 = 3" "MinFromTime 1459825200000 = 0"
  "HourFromTime 1459879200000 = 18" "MinFromTime 1459879200000 = 0"
  "HourFromTime 1459890000000 = 21" "MinFromTime 1459890000000 = 0"
  "HourFromTime 1459826160000 = 3" "MinFromTime 1459826160000 = 16"
  by (simp_all add: HourFromTime_def MinFromTime_def msPerHour_def msPerMinute_def)

lemma example_degrees:
  "clockHandsDegrees (Instant 1457136000000) = Fin 0"
  "clockHandsDegrees (Instant 1459825200000) = Fin 90"
  "clockHandsDegrees (Instant 1459879200000) = Fin 180"
  "clockHandsDegrees (Instant 1459890000000) = Fin 270"
  "clockHandsDegrees (Instant 1459826160000) = Fin (- 2)"
  by code_simp+

lemma example_angles:
  "angleBetweenClockHands (Instant 1457136000000) = Fin 0"
  "angleBetweenClockHands (Instant 1459825200000) = Number_divide Math_PI (Fin 2)"
  "angleBetweenClockHands (Instant 1459879200000) = Math_PI"
  "angleBetweenClockHands (Instant 1459890000000) = Number_divide Math_PI (Fin 2)"
  by code_simp+

lemma half_PI: "Number_divide Math_PI (Fin 2) = Fin (884279719003555 / 562949953421312)"
  by code_simp

text \<open>
  C5. At UTC 00:00 the angle is 0, at 03:00 it is \<open>Math.PI / 2\<close>, at 18:00 it is
  \<open>Math.PI\<close> and at 21:00 it is \<open>Math.PI / 2\<close>, on every day: the roundings of
  \<open>(90 * Math.PI) / 180\<close> and of \<open>90 * (Math.PI / 180)\<close> both give the half of
  \<open>Math.PI\<close> exactly.
\<close>

theorem angleBetweenClockHands_examples:
  assumes "\<bar>t\<bar> \<le> maxTime"
  shows "(HourFromTime t = 0 \<and> MinFromTime t = 0 \<longrightarrow>
            angleBetweenClockHands (Instant t) = Fin 0) \<and>
         (HourFromTime t = 3 \<and> MinFromTime t = 0 \<longrightarrow>
            angleBetweenClockHands (Instant t) = Number_divide Math_PI (Fin 2)) \<and>
         (HourFromTime t = 18 \<and> MinFromTime t = 0 \<longrightarrow>
            angleBetweenClockHands (Instant t) = Math_PI) \<and>
         (HourFromTime t = 21 \<and> MinFromTime t = 0 \<longrightarrow>
            angleBetweenClockHands (Instant t) = Number_divide Math_PI (Fin 2))"
proof -
  have eq: "angleBetweenClockHands (Instant t) = angleBetweenClockHands (Instant t')"
    if "\<bar>t'\<bar> \<le> maxTime" "HourFromTime t = HourFromTime t'" "MinFromTime t = MinFromTime t'"
    for t'
    using assms that by (rule angleBetweenClockHands_fields)
  show ?thesis
    using eq [of 1457136000000] eq [of 1459825200000] eq [of 1459879200000]
      eq [of 1459890000000]
    by (simp add: example_fields example_angles maxTime_def)
qed

theorem angleBetweenClockHands_examples_witness:
  "angleBetweenClockHands (Instant 1457136000000) = Fin 0 \<and>
   angleBetweenClockHands (Instant 1459825200000) = Fin (884279719003555 / 562949953421312) \<and>
   angleBetweenClockHands (Instant 1459879200000) = Fin (884279719003555 / 281474976710656) \<and>
   angleBetweenClockHands (Instant 1459890000000) = Fin (884279719003555 / 562949953421312)"
  using angleBetweenClockHands_examples [of 1457136000000]
    angleBetweenClockHands_examples [of 1459825200000]
    angleBetweenClockHands_examples [of 1459879200000]
    angleBetweenClockHands_examples [of 1459890000000]
  by (simp add: example_fields maxTime_def half_PI) (simp add: Math_PI_def)

text \<open>
  When the angle in degrees is exactly 180, the third \<open>return\<close> of the source gives the
  constant \<open>Math.PI\<close>.
\<close>

lemma angleBetweenClockHands_180:
  assumes "clockHandsDegrees d = Fin 180"
  shows "angleBetweenClockHands d = Math_PI"
  using assms by (simp add: angleBetweenClockHands_def)

lemma angleBetweenClockHands_1800:
  "clockHandsDegrees (Instant 1459879200000) = Fin 180 \<and>
   angleBetweenClockHands (Instant 1459879200000) = Math_PI"
  using angleBetweenClockHands_180 [of "Instant 1459879200000"]
  by (simp add: example_degrees)

text \<open>
  The last \<open>return\<close> of the source, \<open>(result * Math.PI) / 180\<close>, gives the same value at
  180: the rounded product divided by 180 rounds to \<open>Math.PI\<close> again. So the function is
  the same function with and without the branch for 180, and which \<open>return\<close> produced the
  value cannot be told from the value.
\<close>

lemma general_formula_at_180:
  "Number_divide (Number_multiply (Fin 180) Math_PI) (Fin 180) = Math_PI"
  by code_simp

text \<open>
  C1. The claim is that the angle is never negative. The source takes the minute hand to
  be ahead of the hour hand when \<open>minutes * 6 > hours * 30\<close>, and leaves out the half degree
  a minute by which the hour hand has moved on: at 03:16 UTC the hour hand is at 98 degrees
  and the minute hand at 96, the source computes \<open>96 - 90 - 8 = -2\<close> degrees and returns
  \<open>(-2 * Math.PI) / 180\<close>, which is negative.
\<close>

theorem angleBetweenClockHands_negative:
  "wf_date (Instant 1459826160000) \<and>
   HourFromTime 1459826160000 = 3 \<and> MinFromTime 1459826160000 = 16 \<and>
   clockHandsDegrees (Instant 1459826160000) = Fin (- 2) \<and>
   angleBetweenClockHands (Instant 1459826160000) =
     Fin (- (5030569068109113 / 144115188075855872)) \<and>
   Number_lessThan (angleBetweenClockHands (Instant 1459826160000)) (Fin 0)"
proof -
  have "angleBetweenClockHands (Instant 1459826160000) =
      Fin (- (5030569068109113 / 144115188075855872))"
    by code_simp
  then show ?thesis
    by (simp add: example_fields example_degrees maxTime_def)
qed

end
